theory Spec2Isabelle
  imports Main "HOL-Library.AList"
begin

section \<open>Shared data model\<close>

text \<open>
  Go's \<^verbatim>\<open>map[string]string\<close> is an association list with distinct keys; reading a
  missing key gives the empty string, as indexing a Go map does.  Writing a key is
  \<open>AList.update\<close>, \<^verbatim>\<open>delete(m, key)\<close> is \<open>AList.delete\<close>.  A \<^verbatim>\<open>range\<close> over a map
  visits the entries in an unspecified order: a theorem that holds for every
  association list holds for every order.
\<close>

type_synonym config = "(string \<times> string) list"

definition cfg :: "config \<Rightarrow> string \<Rightarrow> string" where
  "cfg m k = (case map_of m k of None \<Rightarrow> [] | Some v \<Rightarrow> v)"

text \<open>\<^verbatim>\<open>deviceConfig.Devices\<close>: device name to device config.\<close>

type_synonym devices = "(string \<times> config) list"

text \<open>
  Errors are kept as the call that makes them: \<^verbatim>\<open>fmt.Errorf(format, args...)\<close> is
  \<open>Errorf format args\<close>, with the arguments not yet printed into the format; when the
  format ends in \<^verbatim>\<open>%w\<close> the wrapped error is the last component, \<open>Wrapf format args err\<close>.
  \<open>ErrAlreadyDefined\<close> is the database sentinel that \<^verbatim>\<open>backupCreate\<close> compares against.
  Errors of the collaborators are values of the same type.
\<close>

datatype fmt_arg = Str string | Num nat

datatype error =
    Errorf string "fmt_arg list"
  | Wrapf string "fmt_arg list" error
  | ErrAlreadyDefined

text \<open>\<^verbatim>\<open>strings.HasPrefix\<close> and \<^verbatim>\<open>strings.TrimPrefix\<close>.\<close>

definition HasPrefix :: "string \<Rightarrow> string \<Rightarrow> bool" where
  "HasPrefix s p \<longleftrightarrow> take (length p) s = p"

definition TrimPrefix :: "string \<Rightarrow> string \<Rightarrow> string" where
  "TrimPrefix s p = (if HasPrefix s p then drop (length p) s else s)"

section \<open>Instance backups: the compression algorithm (backupCreate)\<close>

text \<open>
  Modelled from the spec: the type of the backup object that
  \<^verbatim>\<open>instance.BackupLoadByName\<close> returns is declared in a package that is not among the
  sources; the spec lists \<^verbatim>\<open>compression-algorithm\<close> among the fields of a Backup, and
  \<^verbatim>\<open>SetCompressionAlgorithm\<close> / \<^verbatim>\<open>CompressionAlgorithm\<close> write and read that field.
\<close>

record instance_backup =
  compressionAlgorithm :: string

definition SetCompressionAlgorithm :: "string \<Rightarrow> instance_backup \<Rightarrow> instance_backup" where
  "SetCompressionAlgorithm a b = b\<lparr>compressionAlgorithm := a\<rparr>"

definition CompressionAlgorithm :: "instance_backup \<Rightarrow> string" where
  "CompressionAlgorithm b = compressionAlgorithm b"

text \<open>The arguments of a backup request (\<^verbatim>\<open>db.InstanceBackup\<close>), as far as they are read.\<close>

record backup_args =
  arg_Name :: string
  arg_CompressionAlgorithm :: string
  arg_OptimizedStorage :: bool

text \<open>
  What the collaborators of \<^verbatim>\<open>backupCreate\<close> answer: the storage pool of the instance
  (its driver's \<^verbatim>\<open>OptimizedBackups\<close> flag), the insertion of the backup row, the load
  of the backup object, the load of the instance's project (its config) and the global
  \<^verbatim>\<open>backups.compression_algorithm\<close>.
\<close>

record backup_env =
  LoadByInstance :: "error + bool"
  CreateInstanceBackup :: "error option"
  BackupLoadByName :: "error + instance_backup"
  GetProject :: "error + config"
  BackupsCompressionAlgorithm :: string

text \<open>
  \<^verbatim>\<open>backupCreate\<close> up to the end of "Detect compression method": the result is the
  error returned so far, or the value of the variable \<^verbatim>\<open>compress\<close> that the rest of
  the function writes the tarball with.
\<close>

definition backupCreate :: "backup_env \<Rightarrow> backup_args \<Rightarrow> error + string" where
  "backupCreate s args =
     (case LoadByInstance s of
        Inl err \<Rightarrow> Inl (Wrapf ''Failed loading instance storage pool: %w'' [] err)
      | Inr optimizedBackups \<Rightarrow>
     let args = (if arg_OptimizedStorage args \<and> \<not> optimizedBackups
                 then args\<lparr>arg_OptimizedStorage := False\<rparr> else args) in
     (case CreateInstanceBackup s of
        Some err \<Rightarrow>
          (if err = ErrAlreadyDefined
           then Inl (Errorf ''Backup %q already exists'' [Str (arg_Name args)])
           else Inl (Wrapf ''Insert backup info into database: %w'' [] err))
      | None \<Rightarrow>
     (case BackupLoadByName s of
        Inl err \<Rightarrow> Inl (Wrapf ''Load backup object: %w'' [] err)
      | Inr b0 \<Rightarrow>
     let b = SetCompressionAlgorithm (arg_CompressionAlgorithm args) b0 in
     if CompressionAlgorithm b \<noteq> [] then Inr (CompressionAlgorithm b)
     else
       (case GetProject s of
          Inl err \<Rightarrow> Inl err
        | Inr p \<Rightarrow>
            if cfg p ''backups.compression_algorithm'' \<noteq> []
            then Inr (cfg p ''backups.compression_algorithm'')
            else Inr (BackupsCompressionAlgorithm s)))))"

text \<open>A server whose global default is gzip, with the config of the instance's project.\<close>

definition example_backup_env :: "config \<Rightarrow> backup_env" where
  "example_backup_env projectConfig =
     \<lparr>LoadByInstance = Inr True, CreateInstanceBackup = None,
      BackupLoadByName = Inr \<lparr>compressionAlgorithm = []\<rparr>,
      GetProject = Inr projectConfig, BackupsCompressionAlgorithm = ''gzip''\<rparr>"

section \<open>Instance creation: the automatic instance name (instancesPost)\<close>

text \<open>
  The loop of \<^verbatim>\<open>instancesPost\<close> that picks a name when the request has none.
  \<open>gen k\<close> is the value of \<^verbatim>\<open>strings.ToLower(petname.Generate(2, "-"))\<close> in the
  \<open>k\<close>-th pass (the random generator is the only input of the loop besides
  \<open>names\<close>); \<open>i\<close> is the loop counter before the pass.
\<close>

function instancesPost_name_loop :: "(nat \<Rightarrow> string) \<Rightarrow> string list \<Rightarrow> nat \<Rightarrow> error + string" where
  "instancesPost_name_loop gen names i =
     (if gen (i + 1) \<notin> set names then Inr (gen (i + 1))
      else if i + 1 > 100
           then Inl (Errorf ''Couldn't generate a new unique name after 100 tries'' [])
           else instancesPost_name_loop gen names (i + 1))"
  by pat_completeness auto
termination
  by (relation "measure (\<lambda>(gen, names, i). 101 - i)") auto

declare instancesPost_name_loop.simps [simp del]

text \<open>
  The block "Generate automatic instance name if not specified":
  \<open>GetInstanceNames\<close> is what \<^verbatim>\<open>tx.GetInstanceNames\<close> answers for the project, the
  result is the error the transaction returns or the value of \<^verbatim>\<open>req.Name\<close> after the
  block.
\<close>

definition instancesPost_name ::
  "(error + string list) \<Rightarrow> (nat \<Rightarrow> string) \<Rightarrow> string \<Rightarrow> error + string" where
  "instancesPost_name GetInstanceNames gen name =
     (if name = [] then
        (case GetInstanceNames of
           Inl err \<Rightarrow> Inl err
         | Inr names \<Rightarrow> instancesPost_name_loop gen names 0)
      else Inr name)"

section \<open>The instance core (driver_common.go)\<close>

text \<open>The fields of \<^verbatim>\<open>common\<close> that the functions below read or write.\<close>

record common =
  inst_id :: int
  isSnapshot :: bool
  volatileSetPersistDisable :: bool
  localConfig :: config
  expandedConfig :: config
  expandedDevices :: devices

subsection \<open>shouldAutoRestart\<close>

text \<open>
  A \<^verbatim>\<open>time.Time\<close> is the number of nanoseconds since the zero time, so \<^verbatim>\<open>IsZero\<close> is
  being 0; \<^verbatim>\<open>time.Minute\<close> is 60 * 10^9 nanoseconds.
\<close>

type_synonym time = int

definition IsZero :: "time \<Rightarrow> bool" where
  "IsZero t \<longleftrightarrow> t = 0"

definition Before :: "time \<Rightarrow> time \<Rightarrow> bool" where
  "Before t u \<longleftrightarrow> t < u"

definition Minute :: int where
  "Minute = 60000000000"

text \<open>
  The \<^verbatim>\<open>for i, timestamp := range timestamps\<close> loop: \<open>Inl i\<close> when the loop leaves at
  the unused slot \<open>i\<close>, \<open>Inr oldestIndex\<close> when it runs to the end.  (The counter
  \<^verbatim>\<open>validTimestamps\<close> is written and never read.)
\<close>

fun shouldAutoRestart_scan :: "time list \<Rightarrow> time list \<Rightarrow> nat \<Rightarrow> nat \<Rightarrow> nat + nat" where
  "shouldAutoRestart_scan timestamps [] i oldestIndex = Inr oldestIndex"
| "shouldAutoRestart_scan timestamps (timestamp # rest) i oldestIndex =
     (if IsZero timestamp then Inl i
      else shouldAutoRestart_scan timestamps rest (i + 1)
             (if Before timestamp (timestamps ! oldestIndex) then i else oldestIndex))"

text \<open>
  \<^verbatim>\<open>instancesLastRestart\<close> is a \<^verbatim>\<open>map[int][10]time.Time\<close>: a map from instance id to a
  list of ten timestamps.  \<open>IsTrue\<close> is \<^verbatim>\<open>util.IsTrue\<close>.  \<open>now\<close> is what the first
  \<^verbatim>\<open>time.Now()\<close> of the call reads and \<open>now'\<close> what the second one reads (only the
  last branch reads the clock twice).  The result is the returned flag and the map
  after the call.
\<close>

definition shouldAutoRestart ::
  "(string \<Rightarrow> bool) \<Rightarrow> common \<Rightarrow> (int \<rightharpoonup> time list) \<Rightarrow> time \<Rightarrow> time
     \<Rightarrow> bool \<times> (int \<rightharpoonup> time list)" where
  "shouldAutoRestart IsTrue d instancesLastRestart now now' =
     (if \<not> IsTrue (cfg (expandedConfig d) ''boot.autorestart'') then (False, instancesLastRestart)
      else
        (case instancesLastRestart (inst_id d) of
           None \<Rightarrow> (True, instancesLastRestart(inst_id d \<mapsto> now # replicate 9 0))
         | Some timestamps \<Rightarrow>
             if length timestamps = 0
             then (True, instancesLastRestart(inst_id d \<mapsto> now # replicate 9 0))
             else
               (case shouldAutoRestart_scan timestamps timestamps 0 0 of
                  Inl i \<Rightarrow> (True, instancesLastRestart(inst_id d \<mapsto> timestamps[i := now]))
                | Inr oldestIndex \<Rightarrow>
                    if Before (timestamps ! oldestIndex) (now + (- 1 * Minute))
                    then (True, instancesLastRestart(inst_id d \<mapsto> timestamps[oldestIndex := now']))
                    else (False, instancesLastRestart))))"

text \<open>
  A sequence of auto-restart attempts on one instance, each with its two clock
  readings: the number of attempts that are permitted.
\<close>

fun autoRestarts ::
  "(string \<Rightarrow> bool) \<Rightarrow> common \<Rightarrow> (int \<rightharpoonup> time list) \<Rightarrow> (time \<times> time) list \<Rightarrow> nat" where
  "autoRestarts IsTrue d m [] = 0"
| "autoRestarts IsTrue d m ((now, now') # rest) =
     (case shouldAutoRestart IsTrue d m now now' of
        (permitted, m') \<Rightarrow> (if permitted then 1 else 0) + autoRestarts IsTrue d m' rest)"

text \<open>
  The words of the specification: the ring of an instance (ten unused slots when the
  instance has no entry yet), the timestamps it holds, the oldest of them, and a slot
  that an attempt in a window starting at \<open>w\<close> may take: unused, or more than a
  minute older than \<open>w\<close>.
\<close>

definition ring :: "(int \<rightharpoonup> time list) \<Rightarrow> int \<Rightarrow> time list" where
  "ring m i = (case m i of None \<Rightarrow> replicate 10 0 | Some ts \<Rightarrow> ts)"

definition held :: "time list \<Rightarrow> time list" where
  "held ts = filter (\<lambda>t. \<not> IsZero t) ts"

definition oldest :: "time list \<Rightarrow> time" where
  "oldest ts = Min (set (held ts))"

definition spare :: "time \<Rightarrow> time \<Rightarrow> bool" where
  "spare w t \<longleftrightarrow> IsZero t \<or> Before t (w - Minute)"

subsection \<open>VolatileSet and the device closures\<close>

text \<open>
  Modelled from the spec: the constant \<^verbatim>\<open>internalInstance.ConfigVolatilePrefix\<close> is
  declared in a package that is not among the sources; the spec's glossary has a
  volatile key as "a config key prefixed \<^verbatim>\<open>volatile.\<close>".
\<close>

definition ConfigVolatilePrefix :: string where
  "ConfigVolatilePrefix = ''volatile.''"

text \<open>
  The cluster database, of any type \<open>'db\<close>: the two updates that \<^verbatim>\<open>VolatileSet\<close> runs
  in a transaction answer with an error or none, and leave a database behind.
\<close>

record 'db cluster =
  UpdateInstanceConfig :: "int \<Rightarrow> config \<Rightarrow> 'db \<Rightarrow> error option \<times> 'db"
  UpdateInstanceSnapshotConfig :: "int \<Rightarrow> config \<Rightarrow> 'db \<Rightarrow> error option \<times> 'db"

text \<open>One pass of the loop "Apply the change locally".\<close>

definition VolatileSet_apply :: "string \<times> string \<Rightarrow> common \<Rightarrow> common" where
  "VolatileSet_apply kv d =
     (case kv of (key, val) \<Rightarrow>
        if val = []
        then d\<lparr>expandedConfig := AList.delete key (expandedConfig d),
               localConfig := AList.delete key (localConfig d)\<rparr>
        else d\<lparr>expandedConfig := AList.update key val (expandedConfig d),
               localConfig := AList.update key val (localConfig d)\<rparr>)"

text \<open>
  \<^verbatim>\<open>VolatileSet\<close> returns the error (or none) together with the instance and the
  database as the call leaves them.
\<close>

definition VolatileSet ::
  "'db cluster \<Rightarrow> common \<Rightarrow> 'db \<Rightarrow> config \<Rightarrow> error option \<times> common \<times> 'db" where
  "VolatileSet tx d db changes =
     (if list_ex (\<lambda>key. \<not> HasPrefix key ConfigVolatilePrefix) (map fst changes)
      then (Some (Errorf ''Only volatile keys can be modified with VolatileSet'' []), d, db)
      else
        (case (if \<not> volatileSetPersistDisable d
               then (if isSnapshot d
                     then UpdateInstanceSnapshotConfig tx (inst_id d) changes db
                     else UpdateInstanceConfig tx (inst_id d) changes db)
               else (None, db)) of
           (Some err, db') \<Rightarrow> (Some (Wrapf ''Failed to set volatile config: %w'' [] err), d, db')
         | (None, db') \<Rightarrow> (None, fold VolatileSet_apply changes d, db')))"

text \<open>The closure returned by \<^verbatim>\<open>deviceVolatileGetFunc(devName)\<close>, called on the instance.\<close>

definition deviceVolatileGetFunc :: "common \<Rightarrow> string \<Rightarrow> config" where
  "deviceVolatileGetFunc d devName =
     (let prefix = ''volatile.'' @ devName @ ''.'' in
      fold (\<lambda>(k, v) volatile.
              if HasPrefix k prefix then AList.update (TrimPrefix k prefix) v volatile
              else volatile)
           (localConfig d) [])"

text \<open>The closure returned by \<^verbatim>\<open>deviceVolatileSetFunc(devName)\<close>, called with \<open>save\<close>.\<close>

definition deviceVolatileSetFunc ::
  "'db cluster \<Rightarrow> common \<Rightarrow> 'db \<Rightarrow> string \<Rightarrow> config \<Rightarrow> error option \<times> common \<times> 'db" where
  "deviceVolatileSetFunc tx d db devName save =
     (let volatileSave =
            fold (\<lambda>(k, v) volatileSave.
                    AList.update ((''volatile.'' @ devName @ ''.'') @ k) v volatileSave)
                 save []
      in VolatileSet tx d db volatileSave)"

subsection \<open>needsNewInstanceID\<close>





subsection \<open>Example instances and databases\<close>

definition example_instance :: common where
  "example_instance =
     \<lparr>inst_id = 7, isSnapshot = False, volatileSetPersistDisable = False,
      localConfig = [(''volatile.eth0.hwaddr'', ''00:16:3e:00:00:01''), (''boot.autorestart'', ''true'')],
      expandedConfig = [(''volatile.eth0.hwaddr'', ''00:16:3e:00:00:01''), (''boot.autorestart'', ''true'')],
      expandedDevices = [(''eth0'', [(''type'', ''nic'')])]\<rparr>"


text \<open>A database whose updates fail, and one that records them.\<close>

definition failing_cluster :: "unit cluster" where
  "failing_cluster =
     \<lparr>UpdateInstanceConfig = (\<lambda>i c db. (Some (Errorf ''database is locked'' []), db)),
      UpdateInstanceSnapshotConfig = (\<lambda>i c db. (Some (Errorf ''database is locked'' []), db))\<rparr>"

definition working_cluster :: "(int \<times> config) list cluster" where
  "working_cluster =
     \<lparr>UpdateInstanceConfig = (\<lambda>i c db. (None, (i, c) # db)),
      UpdateInstanceSnapshotConfig = (\<lambda>i c db. (None, (i, c) # db))\<rparr>"

section \<open>Network ACLs: rule validation\<close>

text \<open>
  Modelled from the spec: the types \<^verbatim>\<open>api.NetworkACLRule\<close> and \<^verbatim>\<open>api.NetworkACLPut\<close> are
  declared in a package that is not among the sources; the spec gives a Rule the fields
  Action, State, Source,
  Destination, Protocol, SourcePort, DestinationPort, ICMPType, ICMPCode and
  Description, and an ACL a config map and the rule lists ingress and egress.  Two
  rules are equal (\<^verbatim>\<open>==\<close>) when all their fields are.
\<close>

record NetworkACLRule =
  Action :: string
  State :: string
  Source :: string
  Destination :: string
  Protocol :: string
  SourcePort :: string
  DestinationPort :: string
  ICMPType :: string
  ICMPCode :: string
  Description :: string

record NetworkACLPut =
  Config :: config
  Ingress :: "NetworkACLRule list"
  Egress :: "NetworkACLRule list"

datatype ruleDirection = ruleDirectionIngress | ruleDirectionEgress

text \<open>
  \<^verbatim>\<open>ruleDirection\<close> is a string type; the code passes its two constants only.  The
  string behind a direction:
\<close>

fun direction_name :: "ruleDirection \<Rightarrow> string" where
  "direction_name ruleDirectionIngress = ''ingress''"
| "direction_name ruleDirectionEgress = ''egress''"

definition ruleSubjectInternal :: string where
  "ruleSubjectInternal = ''@internal''"

definition ruleSubjectExternal :: string where
  "ruleSubjectExternal = ''@external''"

definition ruleSubjectInternalAliases :: "string list" where
  "ruleSubjectInternalAliases = [ruleSubjectInternal, ''#internal'']"

definition ruleSubjectExternalAliases :: "string list" where
  "ruleSubjectExternalAliases = [ruleSubjectExternal, ''#external'']"

definition ValidActions :: "string list" where
  "ValidActions = [''allow'', ''allow-stateless'', ''drop'', ''reject'']"

text \<open>
  A parsed \<^verbatim>\<open>net.IP\<close>, as far as the code looks at it: \<^verbatim>\<open>ip.To4()\<close> is non-nil for
  \<open>IPv4\<close> and nil for \<open>IPv6\<close>.
\<close>

datatype ip = IPv4 | IPv6

text \<open>
  What the validation calls in other packages: the database (the ACL names
  of the project with their ids, the lookup of an address set), the standard library
  (\<^verbatim>\<open>net.ParseIP\<close>, \<^verbatim>\<open>net.ParseCIDR\<close>), and the helpers
  \<^verbatim>\<open>validate.IsNetworkRange\<close>, \<^verbatim>\<open>validate.IsNetworkPortRange\<close>, \<^verbatim>\<open>validate.IsUint8\<close>,
  \<^verbatim>\<open>util.SplitNTrimSpace(s, ",", -1, false)\<close>, \<^verbatim>\<open>NetworkACLRule.Normalise\<close> and
  \<^verbatim>\<open>internalInstance.IsUserConfig\<close>.
\<close>

record acl_env =
  GetNetworkACLIDsByNames :: "error + (string \<times> int) list"
  GetNetworkAddressSet :: "string \<Rightarrow> error option"
  ParseIP :: "string \<Rightarrow> ip option"
  ParseCIDR :: "string \<Rightarrow> error + ip"
  IsNetworkRange :: "string \<Rightarrow> error option"
  IsNetworkPortRange :: "string \<Rightarrow> error option"
  IsUint8 :: "string \<Rightarrow> error option"
  SplitNTrimSpace :: "string \<Rightarrow> string list"
  Normalise :: "NetworkACLRule \<Rightarrow> NetworkACLRule"
  IsUserConfig :: "string \<Rightarrow> bool"

text \<open>\<^verbatim>\<open>strings.Join\<close>, \<^verbatim>\<open>strings.SplitN(s, sep, 2)\<close> for a one-byte separator,
  and \<^verbatim>\<open>strings.Trim(s, cutset)\<close> for a one-byte cutset.\<close>

fun Join :: "string list \<Rightarrow> string \<Rightarrow> string" where
  "Join [] sep = []"
| "Join [x] sep = x"
| "Join (x # y # ys) sep = x @ sep @ Join (y # ys) sep"

definition SplitN2 :: "string \<Rightarrow> char \<Rightarrow> string list" where
  "SplitN2 s sep =
     (if sep \<in> set s
      then [takeWhile (\<lambda>c. c \<noteq> sep) s, tl (dropWhile (\<lambda>c. c \<noteq> sep) s)]
      else [s])"

definition Trim :: "string \<Rightarrow> char \<Rightarrow> string" where
  "Trim s c = rev (dropWhile (\<lambda>x. x = c) (rev (dropWhile (\<lambda>x. x = c) s)))"

text \<open>
  \<^verbatim>\<open>for _, x := range xs { err := f(x); if err != nil { return err } }\<close>: the first
  error, or none.
\<close>

fun first_error :: "('a \<Rightarrow> error option) \<Rightarrow> 'a list \<Rightarrow> error option" where
  "first_error f [] = None"
| "first_error f (x # xs) = (case f x of Some err \<Rightarrow> Some err | None \<Rightarrow> first_error f xs)"

subsection \<open>validateRuleSubjects\<close>

text \<open>The IP version of a parsed address.\<close>

definition ipVersion_of :: "ip option \<Rightarrow> nat" where
  "ipVersion_of ip = (if ip = Some IPv4 then 4 else 6)"

definition isNetworkAddress :: "acl_env \<Rightarrow> string \<Rightarrow> error + nat" where
  "isNetworkAddress env v =
     (case ParseIP env v of
        None \<Rightarrow> Inl (Errorf ''Not an IP address %q'' [Str v])
      | Some ip \<Rightarrow> Inr (ipVersion_of (Some ip)))"

definition isNetworkAddressCIDR :: "acl_env \<Rightarrow> string \<Rightarrow> error + nat" where
  "isNetworkAddressCIDR env v =
     (case ParseCIDR env v of
        Inl err \<Rightarrow> Inl err
      | Inr ip \<Rightarrow> Inr (ipVersion_of (Some ip)))"

definition isNetworkRange :: "acl_env \<Rightarrow> string \<Rightarrow> error + nat" where
  "isNetworkRange env v =
     (case IsNetworkRange env v of
        Some err \<Rightarrow> Inl err
      | None \<Rightarrow>
          let ips = SplitN2 v (CHR ''-'') in
          if length ips \<noteq> 2
          then Inl (Errorf ''IP range must contain start and end IP addresses'' [])
          else Inr (ipVersion_of (ParseIP env (ips ! 0))))"

text \<open>The closure \<^verbatim>\<open>validSubject\<close>: the three address checks in order, then the names.\<close>

definition validSubject ::
  "acl_env \<Rightarrow> bool \<Rightarrow> string \<Rightarrow> ruleDirection \<Rightarrow> string list \<Rightarrow> string \<Rightarrow> error + nat" where
  "validSubject env allowSubjectNames fieldName direction validSubjectNames subject =
     (case isNetworkAddress env subject of Inr ipVersion \<Rightarrow> Inr ipVersion | Inl _ \<Rightarrow>
     (case isNetworkAddressCIDR env subject of Inr ipVersion \<Rightarrow> Inr ipVersion | Inl _ \<Rightarrow>
     (case isNetworkRange env subject of Inr ipVersion \<Rightarrow> Inr ipVersion | Inl _ \<Rightarrow>
        if subject \<in> set validSubjectNames then
          (if allowSubjectNames then Inr 0
           else Inl (Errorf ''Named subjects not allowed in %q for %q rules''
                       [Str fieldName, Str (direction_name direction)]))
        else if HasPrefix subject ''@'' then
          (if allowSubjectNames then Inr 0
           else Inl (Errorf ''Named subjects not allowed in %q for %q rules''
                       [Str fieldName, Str (direction_name direction)]))
        else if HasPrefix subject ''$'' then
          (let addrSetName = Trim subject (CHR ''$'') in
           case GetNetworkAddressSet env addrSetName of
             Some err \<Rightarrow>
               Inl (Wrapf ''Failed getting network address set %q for subject validation: %w''
                      [Str addrSetName] err)
           | None \<Rightarrow> Inr 0)
        else Inl (Errorf ''Invalid subject %q'' [Str subject]))))"

text \<open>The loop over the subjects, with the three flags it sets.\<close>

fun validateRuleSubjects_loop ::
  "(string \<Rightarrow> error + nat) \<Rightarrow> string list \<Rightarrow> bool \<times> bool \<times> bool \<Rightarrow> error + (bool \<times> bool \<times> bool)" where
  "validateRuleSubjects_loop valid [] flags = Inr flags"
| "validateRuleSubjects_loop valid (s # subjects) (hasName, hasIPv4, hasIPv6) =
     (case valid s of
        Inl err \<Rightarrow> Inl err
      | Inr ipVersion \<Rightarrow>
          validateRuleSubjects_loop valid subjects
            (if ipVersion = 0 then True else hasName,
             if ipVersion = 4 then True else hasIPv4,
             if ipVersion = 6 then True else hasIPv6))"

definition validateRuleSubjects ::
  "acl_env \<Rightarrow> string \<Rightarrow> ruleDirection \<Rightarrow> string list \<Rightarrow> string list
     \<Rightarrow> error + (bool \<times> bool \<times> bool)" where
  "validateRuleSubjects env fieldName direction subjects validSubjectNames =
     (let allowSubjectNames =
            (fieldName = ''Source'' \<and> direction = ruleDirectionIngress)
          \<or> (fieldName = ''Destination'' \<and> direction = ruleDirectionEgress)
      in validateRuleSubjects_loop
           (validSubject env allowSubjectNames fieldName direction validSubjectNames)
           subjects (False, False, False))"

definition validatePorts :: "acl_env \<Rightarrow> string list \<Rightarrow> error option" where
  "validatePorts env ports = first_error (IsNetworkPortRange env) ports"

subsection \<open>validateRule\<close>

text \<open>
  The first half of \<^verbatim>\<open>validateRule\<close>, up to and including the check of the combination
  of subject types: the error it returns, or the six flags
  \<open>((srcHasName, srcHasIPv4, srcHasIPv6), (dstHasName, dstHasIPv4, dstHasIPv6))\<close>.
\<close>

definition validateRule_subjects ::
  "acl_env \<Rightarrow> ruleDirection \<Rightarrow> NetworkACLRule
     \<Rightarrow> error + ((bool \<times> bool \<times> bool) \<times> (bool \<times> bool \<times> bool))" where
  "validateRule_subjects env direction rule =
     (if Action rule \<notin> set ValidActions
      then Inl (Errorf ''Action must be one of: %s'' [Str (Join ValidActions '', '')])
      else if State rule \<notin> set [''enabled'', ''disabled'', ''logged'']
      then Inl (Errorf ''State must be one of: %s''
                 [Str (Join [''enabled'', ''disabled'', ''logged''] '', '')])
      else
        (case GetNetworkACLIDsByNames env of
           Inl err \<Rightarrow>
             Inl (Wrapf ''Failed getting network ACLs for security ACL subject validation: %w'' [] err)
         | Inr acls \<Rightarrow>
        let validSubjectNames =
              ruleSubjectInternalAliases @ ruleSubjectExternalAliases @ map fst acls in
        (case (if Source rule \<noteq> []
               then validateRuleSubjects env ''Source'' direction
                      (SplitNTrimSpace env (Source rule)) validSubjectNames
               else Inr (False, False, False)) of
           Inl err \<Rightarrow> Inl (Wrapf ''Invalid Source: %w'' [] err)
         | Inr (srcHasName, srcHasIPv4, srcHasIPv6) \<Rightarrow>
        (case (if Destination rule \<noteq> []
               then validateRuleSubjects env ''Destination'' direction
                      (SplitNTrimSpace env (Destination rule)) validSubjectNames
               else Inr (False, False, False)) of
           Inl err \<Rightarrow> Inl (Wrapf ''Invalid Destination: %w'' [] err)
         | Inr (dstHasName, dstHasIPv4, dstHasIPv6) \<Rightarrow>
        if Source rule \<noteq> [] \<and> Destination rule \<noteq> [] \<and>
           ((srcHasIPv4 \<and> \<not> dstHasIPv4 \<and> \<not> dstHasName) \<or>
            (dstHasIPv4 \<and> \<not> srcHasIPv4 \<and> \<not> srcHasName) \<or>
            (srcHasIPv6 \<and> \<not> dstHasIPv6 \<and> \<not> dstHasName) \<or>
            (dstHasIPv6 \<and> \<not> srcHasIPv6 \<and> \<not> srcHasName))
        then Inl (Errorf ''Conflicting IP family types used for Source and Destination'' [])
        else Inr ((srcHasName, srcHasIPv4, srcHasIPv6), (dstHasName, dstHasIPv4, dstHasIPv6))))))"

text \<open>
  The second half: the Protocol field and the fields that depend on it, given the
  flags \<open>srcHasIPv4\<close>, \<open>srcHasIPv6\<close>, \<open>dstHasIPv4\<close>, \<open>dstHasIPv6\<close>.
\<close>

definition validateRule_protocol ::
  "acl_env \<Rightarrow> NetworkACLRule \<Rightarrow> bool \<Rightarrow> bool \<Rightarrow> bool \<Rightarrow> bool \<Rightarrow> error option" where
  "validateRule_protocol env rule srcHasIPv4 srcHasIPv6 dstHasIPv4 dstHasIPv6 =
     (if Protocol rule \<noteq> [] \<and> Protocol rule \<notin> set [''icmp4'', ''icmp6'', ''tcp'', ''udp'']
      then Some (Errorf ''Protocol must be one of: %s''
                  [Str (Join [''icmp4'', ''icmp6'', ''tcp'', ''udp''] '', '')])
      else if Protocol rule \<in> set [''tcp'', ''udp''] then
        (if ICMPType rule \<noteq> []
         then Some (Errorf ''ICMP type cannot be used with non-ICMP protocol'' [])
         else if ICMPCode rule \<noteq> []
         then Some (Errorf ''ICMP code cannot be used with non-ICMP protocol'' [])
         else
           (case (if SourcePort rule \<noteq> []
                  then validatePorts env (SplitNTrimSpace env (SourcePort rule)) else None) of
              Some err \<Rightarrow> Some (Wrapf ''Invalid Source port: %w'' [] err)
            | None \<Rightarrow>
           (case (if DestinationPort rule \<noteq> []
                  then validatePorts env (SplitNTrimSpace env (DestinationPort rule)) else None) of
              Some err \<Rightarrow> Some (Wrapf ''Invalid Destination port: %w'' [] err)
            | None \<Rightarrow> None)))
      else if Protocol rule \<in> set [''icmp4'', ''icmp6''] then
        (if SourcePort rule \<noteq> []
         then Some (Errorf ''Source port cannot be used with %q protocol'' [Str (Protocol rule)])
         else if DestinationPort rule \<noteq> []
         then Some (Errorf ''Destination port cannot be used with %q protocol''
                     [Str (Protocol rule)])
         else
           (case (if Protocol rule = ''icmp4'' then
                    (if srcHasIPv6
                     then Some (Errorf ''Cannot use IPv6 source addresses with %q protocol'' [Str (Protocol rule)])
                     else if dstHasIPv6
                     then Some (Errorf ''Cannot use IPv6 destination addresses with %q protocol'' [Str (Protocol rule)])
                     else None)
                  else if Protocol rule = ''icmp6'' then
                    (if srcHasIPv4
                     then Some (Errorf ''Cannot use IPv4 source addresses with %q protocol'' [Str (Protocol rule)])
                     else if dstHasIPv4
                     then Some (Errorf ''Cannot use IPv4 destination addresses with %q protocol'' [Str (Protocol rule)])
                     else None)
                  else None) of
              Some err \<Rightarrow> Some err
            | None \<Rightarrow>
           (case (if ICMPType rule \<noteq> [] then IsUint8 env (ICMPType rule) else None) of
              Some err \<Rightarrow> Some (Wrapf ''Invalid ICMP type: %w'' [] err)
            | None \<Rightarrow>
           (case (if ICMPCode rule \<noteq> [] then IsUint8 env (ICMPCode rule) else None) of
              Some err \<Rightarrow> Some (Wrapf ''Invalid ICMP code: %w'' [] err)
            | None \<Rightarrow> None))))
      else
        (if ICMPType rule \<noteq> []
         then Some (Errorf ''ICMP type cannot be used without specifying protocol'' [])
         else if ICMPCode rule \<noteq> []
         then Some (Errorf ''ICMP code cannot be used without specifying protocol'' [])
         else if SourcePort rule \<noteq> []
         then Some (Errorf ''Source port cannot be used without specifying protocol'' [])
         else if DestinationPort rule \<noteq> []
         then Some (Errorf ''Destination port cannot be used without specifying protocol'' [])
         else None))"

definition validateRule :: "acl_env \<Rightarrow> ruleDirection \<Rightarrow> NetworkACLRule \<Rightarrow> error option" where
  "validateRule env direction rule =
     (case validateRule_subjects env direction rule of
        Inl err \<Rightarrow> Some err
      | Inr ((srcHasName, srcHasIPv4, srcHasIPv6), (dstHasName, dstHasIPv4, dstHasIPv6)) \<Rightarrow>
          validateRule_protocol env rule srcHasIPv4 srcHasIPv6 dstHasIPv4 dstHasIPv6)"

subsection \<open>validateConfig\<close>

text \<open>
  \<^verbatim>\<open>validateConfigMap\<close>: \<open>rules\<close> pairs a config key with its validator; the first loop
  runs the validators, the second looks for keys that are neither checked nor user
  keys.
\<close>

definition validateConfigMap ::
  "acl_env \<Rightarrow> config \<Rightarrow> (string \<times> (string \<Rightarrow> error option)) list \<Rightarrow> error option" where
  "validateConfigMap env config rules =
     (case first_error
             (\<lambda>(k, validator).
                case validator (cfg config k) of
                  Some err \<Rightarrow> Some (Wrapf ''Invalid value for config option %q: %w'' [Str k] err)
                | None \<Rightarrow> None)
             rules of
        Some err \<Rightarrow> Some err
      | None \<Rightarrow>
          first_error
            (\<lambda>(k, v).
               if k \<in> set (map fst rules) then None
               else if IsUserConfig env k then None
               else Some (Errorf ''Invalid config option %q'' [Str k]))
            config)"

text \<open>
  The check of one rule at index \<open>i\<close> of a direction of normalised rules: the rule
  itself, then the search for an equal rule at another index.
\<close>

definition validateConfig_rule ::
  "acl_env \<Rightarrow> ruleDirection \<Rightarrow> NetworkACLRule list \<Rightarrow> nat \<times> NetworkACLRule \<Rightarrow> error option" where
  "validateConfig_rule env direction rules ir =
     (case ir of (i, rule) \<Rightarrow>
        (case validateRule env direction rule of
           Some err \<Rightarrow>
             Some (Wrapf (''Invalid '' @ direction_name direction @ '' rule %d: %w'') [Num i] err)
         | None \<Rightarrow>
             first_error
               (\<lambda>(ri, r).
                  if ri = i then None
                  else if r = rule
                  then Some (Errorf (''Duplicate of '' @ direction_name direction @ '' rule %d'')
                                [Num i])
                  else None)
               (enumerate 0 rules)))"

text \<open>
  \<^verbatim>\<open>validateConfig\<close> returns its error (or none) and the configuration as the call
  leaves it: the rules are normalised in place once the config map has passed.
\<close>

definition validateConfig :: "acl_env \<Rightarrow> NetworkACLPut \<Rightarrow> error option \<times> NetworkACLPut" where
  "validateConfig env info =
     (case validateConfigMap env (Config info) [] of
        Some err \<Rightarrow> (Some err, info)
      | None \<Rightarrow>
          let info = info\<lparr>Ingress := map (Normalise env) (Ingress info),
                          Egress := map (Normalise env) (Egress info)\<rparr> in
          (case first_error (validateConfig_rule env ruleDirectionIngress (Ingress info))
                  (enumerate 0 (Ingress info)) of
             Some err \<Rightarrow> (Some err, info)
           | None \<Rightarrow>
          (case first_error (validateConfig_rule env ruleDirectionEgress (Egress info))
                  (enumerate 0 (Egress info)) of
             Some err \<Rightarrow> (Some err, info)
           | None \<Rightarrow> (None, info))))"

subsection \<open>An example project\<close>

text \<open>
  A project with the ACL \<^verbatim>\<open>web\<close> and the address set \<^verbatim>\<open>dmz\<close>; the parsers know the
  addresses the examples use, and subjects are split at commas (no blanks to trim).
\<close>

fun split_commas :: "string \<Rightarrow> string list" where
  "split_commas [] = [[]]"
| "split_commas (c # cs) =
     (if c = CHR '','' then [] # split_commas cs
      else (case split_commas cs of w # ws \<Rightarrow> (c # w) # ws | [] \<Rightarrow> [[c]]))"

definition example_acl_env :: acl_env where
  "example_acl_env =
     \<lparr>GetNetworkACLIDsByNames = Inr [(''web'', 1)],
      GetNetworkAddressSet = (\<lambda>n. if n = ''dmz'' then None else Some (Errorf ''not found'' [])),
      ParseIP = (\<lambda>s. if s = ''10.0.0.1'' then Some IPv4
                      else if s = ''fe80::1'' then Some IPv6 else None),
      ParseCIDR = (\<lambda>s. if s = ''10.0.0.0/24'' then Inr IPv4 else Inl (Errorf ''invalid CIDR address'' [])),
      IsNetworkRange = (\<lambda>s. Some (Errorf ''not an IP range'' [])),
      IsNetworkPortRange = (\<lambda>s. if s = ''80'' then None else Some (Errorf ''invalid port'' [])),
      IsUint8 = (\<lambda>s. if s = ''8'' then None else Some (Errorf ''invalid number'' [])),
      SplitNTrimSpace = split_commas,
      Normalise = (\<lambda>r. r),
      IsUserConfig = (\<lambda>k. HasPrefix k ''user.'')\<rparr>"

definition example_rule :: NetworkACLRule where
  "example_rule =
     \<lparr>Action = ''allow'', State = ''enabled'', Source = [], Destination = [], Protocol = [],
      SourcePort = [], DestinationPort = [], ICMPType = [], ICMPCode = [], Description = []\<rparr>"

subsection \<open>The subjects in the words of the specification\<close>

text \<open>
  A subject is an address when one of the three address checks accepts it (the value
  is its IP version).  A named subject is a subject that is not an address and is one
  of the reserved names, the name of an ACL of the project, or begins with \<^verbatim>\<open>@\<close> (a
  peer).  An address-set subject is any other subject that begins with \<^verbatim>\<open>$\<close> and whose
  address set exists.
\<close>

definition address_subject :: "acl_env \<Rightarrow> string \<Rightarrow> nat option" where
  "address_subject env s =
     (case isNetworkAddress env s of Inr v \<Rightarrow> Some v | Inl _ \<Rightarrow>
     (case isNetworkAddressCIDR env s of Inr v \<Rightarrow> Some v | Inl _ \<Rightarrow>
     (case isNetworkRange env s of Inr v \<Rightarrow> Some v | Inl _ \<Rightarrow> None)))"

definition named_subject :: "acl_env \<Rightarrow> string \<Rightarrow> bool" where
  "named_subject env s \<longleftrightarrow>
     address_subject env s = None \<and>
     (s \<in> set (ruleSubjectInternalAliases @ ruleSubjectExternalAliases)
      \<or> (case GetNetworkACLIDsByNames env of Inl _ \<Rightarrow> False | Inr acls \<Rightarrow> s \<in> set (map fst acls))
      \<or> HasPrefix s ''@'')"

definition address_set_subject :: "acl_env \<Rightarrow> string \<Rightarrow> bool" where
  "address_set_subject env s \<longleftrightarrow>
     address_subject env s = None \<and> \<not> named_subject env s \<and> HasPrefix s ''$''
     \<and> GetNetworkAddressSet env (Trim s (CHR ''$'')) = None"

definition IPv6_subject :: "acl_env \<Rightarrow> string \<Rightarrow> bool" where
  "IPv6_subject env s \<longleftrightarrow> address_subject env s = Some 6"

definition example_acl :: NetworkACLPut where
  "example_acl =
     \<lparr>Config = [(''user.owner'', ''ops'')],
      Ingress = [example_rule, example_rule\<lparr>Action := ''drop''\<rparr>],
      Egress = [example_rule]\<rparr>"

section \<open>Instance creation: the dispatcher (instancesPost)\<close>

text \<open>
  The answers of the dispatcher.  \<^verbatim>\<open>response.Forbidden\<close>, \<^verbatim>\<open>BadRequest\<close>,
  \<^verbatim>\<open>SmartError\<close> and \<^verbatim>\<open>InternalError\<close> carry their error;
  \<open>ForwardedOperationResponse\<close> is the answer for an operation created on another
  member; \<open>Handled h\<close> stands for whatever the create handler \<open>h\<close> answers once it is
  past its first statement, which is where it starts to create the instance on this
  member.
\<close>

datatype response =
    Forbidden error
  | BadRequest error
  | SmartError error
  | InternalError error
  | ForwardedOperationResponse
  | Handled string

text \<open>The fields of the daemon state and of \<^verbatim>\<open>api.InstancesPost\<close> that the dispatcher reads.\<close>

record daemon_state =
  ServerClustered :: bool
  LocalNodeIsEvacuated :: bool
  ServerName :: string
  InstancesPlacementScriptlet :: string

record InstancesPost =
  req_Name :: string
  req_InstanceType :: string
  req_Source_Type :: string
  req_Source_Refresh :: bool

text \<open>
  The HTTP request: its \<^verbatim>\<open>Content-Type\<close> header, what decoding its body as JSON gives,
  \<^verbatim>\<open>isClusterNotification(r)\<close>, \<^verbatim>\<open>isClusterInternal(r)\<close>, the value of
  \<^verbatim>\<open>request.CtxProtocol\<close> in its context and its \<^verbatim>\<open>target\<close> query parameter.
\<close>

record http_request =
  ContentType :: string
  Body :: "error + InstancesPost"
  isClusterNotification :: bool
  isClusterInternal :: bool
  CtxProtocol :: string
  target :: string

record NodeInfo =
  node_Name :: string
  node_Address :: string

text \<open>
  What \<^verbatim>\<open>cluster.ConnectIfInstanceIsRemote\<close> returns: an error that is not a not-found
  error, a not-found error, a client (the instance is on another member), or neither
  (the instance is local).
\<close>

datatype remote_lookup = LookupError error | LookupNotFound error | RemoteClient | NoClient

text \<open>
  What the database transaction of the dispatcher leaves in the captured variables
  (the project, the profiles and the generated name are not looked at below).
\<close>

record tx_result =
  targetMemberInfo :: "NodeInfo option"
  targetGroupName :: string
  candidateMembers :: "NodeInfo list"

text \<open>What the collaborators of the dispatcher answer.\<close>

record dispatch_env =
  instanceParseType :: "error option"
  ConnectIfInstanceIsRemote :: remote_lookup
  ClientCreateInstance :: "error option"
  Transaction :: "error + tx_result"
  ValidName :: "error option"
  LeaderAddress :: "error option"
  InstancePlacementRun :: "error + NodeInfo option"
  ClusterConnect :: "error option"

subsection \<open>The create handlers, up to their first statement\<close>

definition createFromImage :: "daemon_state \<Rightarrow> response" where
  "createFromImage s =
     (if ServerClustered s \<and> LocalNodeIsEvacuated s
      then Forbidden (Errorf ''Cluster member is evacuated'' [])
      else Handled ''createFromImage'')"

definition createFromNone :: "daemon_state \<Rightarrow> response" where
  "createFromNone s =
     (if ServerClustered s \<and> LocalNodeIsEvacuated s
      then Forbidden (Errorf ''Cluster member is evacuated'' [])
      else Handled ''createFromNone'')"

text \<open>\<open>r\<close> is \<open>None\<close> for a nil request.\<close>

definition createFromMigration :: "daemon_state \<Rightarrow> http_request option \<Rightarrow> response" where
  "createFromMigration s r =
     (if ServerClustered s \<and> r \<noteq> None \<and> CtxProtocol (the r) \<noteq> ''cluster''
         \<and> LocalNodeIsEvacuated s
      then Forbidden (Errorf ''Cluster member is evacuated'' [])
      else Handled ''createFromMigration'')"

definition createFromCopy :: "daemon_state \<Rightarrow> response" where
  "createFromCopy s =
     (if ServerClustered s \<and> LocalNodeIsEvacuated s
      then Forbidden (Errorf ''Cluster member is evacuated'' [])
      else Handled ''createFromCopy'')"

text \<open>
  \<^verbatim>\<open>createFromBackup\<close> starts with the temporary file for the upload; none of its
  statements reads \<^verbatim>\<open>ServerClustered\<close> or \<^verbatim>\<open>LocalNodeIsEvacuated\<close>.
\<close>

definition createFromBackup :: "daemon_state \<Rightarrow> response" where
  "createFromBackup s = Handled ''createFromBackup''"

subsection \<open>instancesPost\<close>

text \<open>
  The placement block (\<^verbatim>\<open>if s.ServerClustered && !clusterNotification && !clusterInternal\<close>):
  the response it returns, or the target member it leaves.
\<close>

definition instancesPost_placement ::
  "daemon_state \<Rightarrow> dispatch_env \<Rightarrow> http_request \<Rightarrow> tx_result \<Rightarrow> response + NodeInfo option" where
  "instancesPost_placement s env r tx =
     (if ServerClustered s \<and> \<not> isClusterNotification r \<and> \<not> isClusterInternal r then
        let candidates = (case targetMemberInfo tx of
                            Some m \<Rightarrow> [m] | None \<Rightarrow> candidateMembers tx) in
        (case (if InstancesPlacementScriptlet s \<noteq> [] then
                 (case LeaderAddress env of
                    Some err \<Rightarrow> Inl (InternalError err)
                  | None \<Rightarrow>
                      (case InstancePlacementRun env of
                         Inl err \<Rightarrow>
                           Inl (SmartError (Wrapf ''Failed instance placement scriptlet: %w'' [] err))
                       | Inr m \<Rightarrow> Inr m))
               else Inr (targetMemberInfo tx)) of
           Inl resp \<Rightarrow> Inl resp
         | Inr member \<Rightarrow>
             let member = (if member = None \<and> length candidates > 0
                           then Some (candidates ! 0) else member) in
             if member = None
             then Inl (InternalError (Errorf ''Couldn't find a cluster member for the instance'' []))
             else Inr member)
      else Inr (targetMemberInfo tx))"

text \<open>
  "Special handling for instance refresh": the response of the short circuit, or
  \<open>None\<close> when the dispatcher goes on.
\<close>

definition instancesPost_refresh ::
  "daemon_state \<Rightarrow> dispatch_env \<Rightarrow> http_request \<Rightarrow> InstancesPost \<Rightarrow> response option" where
  "instancesPost_refresh s env r req =
     (if ServerClustered s \<and> \<not> isClusterNotification r
         \<and> req_Source_Type req = ''migration'' \<and> req_Source_Refresh req
      then (case ConnectIfInstanceIsRemote env of
              LookupError err \<Rightarrow> Some (SmartError err)
            | RemoteClient \<Rightarrow>
                (case ClientCreateInstance env of
                   Some err \<Rightarrow> Some (SmartError err)
                 | None \<Rightarrow> Some ForwardedOperationResponse)
            | NoClient \<Rightarrow> Some (createFromMigration s (Some r))
            | LookupNotFound err \<Rightarrow> None)
      else None)"

text \<open>
  The forward to the target member, when there is one with an address and it is not
  this server: the response, or \<open>None\<close> when the instance is created here.
\<close>

definition instancesPost_forward ::
  "daemon_state \<Rightarrow> dispatch_env \<Rightarrow> NodeInfo option \<Rightarrow> response option" where
  "instancesPost_forward s env member =
     (if member \<noteq> None \<and> node_Address (the member) \<noteq> []
         \<and> node_Name (the member) \<noteq> ServerName s
      then (case ClusterConnect env of
              Some err \<Rightarrow> Some (SmartError err)
            | None \<Rightarrow>
                (case ClientCreateInstance env of
                   Some err \<Rightarrow> Some (SmartError err)
                 | None \<Rightarrow> Some ForwardedOperationResponse))
      else None)"

text \<open>The final \<^verbatim>\<open>switch req.Source.Type\<close>.\<close>

definition instancesPost_switch ::
  "daemon_state \<Rightarrow> http_request \<Rightarrow> InstancesPost \<Rightarrow> response" where
  "instancesPost_switch s r req =
     (if req_Source_Type req = ''image'' then createFromImage s
      else if req_Source_Type req = ''none'' then createFromNone s
      else if req_Source_Type req = ''migration'' then createFromMigration s (Some r)
      else if req_Source_Type req = ''copy'' then createFromCopy s
      else BadRequest (Errorf ''Unknown source type %s'' [Str (req_Source_Type req)]))"

text \<open>
  The dispatcher, block after block.  (When the server is not clustered or the request
  is a notification the transaction leaves the target member and the candidates nil;
  the model lets \<open>Transaction\<close> answer anything.)
\<close>

definition instancesPost :: "daemon_state \<Rightarrow> dispatch_env \<Rightarrow> http_request \<Rightarrow> response" where
  "instancesPost s env r =
     (if ContentType r = ''application/octet-stream'' then createFromBackup s
      else
      (case Body r of
         Inl err \<Rightarrow> BadRequest err
       | Inr req \<Rightarrow>
      (case (if req_InstanceType req \<noteq> [] then instanceParseType env else None) of
         Some err \<Rightarrow> BadRequest err
       | None \<Rightarrow>
      (case instancesPost_refresh s env r req of
         Some resp \<Rightarrow> resp
       | None \<Rightarrow>
      if \<not> ServerClustered s \<and> target r \<noteq> []
      then BadRequest (Errorf ''Target only allowed when clustered'' [])
      else
      (case Transaction env of
         Inl err \<Rightarrow> SmartError err
       | Inr tx \<Rightarrow>
      (case ValidName env of
         Some err \<Rightarrow> BadRequest err
       | None \<Rightarrow>
      (case instancesPost_placement s env r tx of
         Inl resp \<Rightarrow> resp
       | Inr member \<Rightarrow>
      (case instancesPost_forward s env member of
         Some resp \<Rightarrow> resp
       | None \<Rightarrow> instancesPost_switch s r req))))))))"

text \<open>
  The answers the dispatcher gives without creating anything on this member: the
  evacuation error, an error of one of its own checks, or the forwarded operation.
\<close>

definition dispatcher_answer :: "response \<Rightarrow> bool" where
  "dispatcher_answer resp \<longleftrightarrow>
     resp = Forbidden (Errorf ''Cluster member is evacuated'' [])
   \<or> resp = ForwardedOperationResponse
   \<or> (case resp of BadRequest e \<Rightarrow> True | SmartError e \<Rightarrow> True | InternalError e \<Rightarrow> True
       | _ \<Rightarrow> False)"

subsection \<open>An evacuated cluster member\<close>

text \<open>
  Member \<^verbatim>\<open>m1\<close> of a cluster, evacuated; a create request from an image sent to it by a
  client; and a database that places the instance on member \<^verbatim>\<open>m2\<close>.
\<close>

definition evacuated_member :: daemon_state where
  "evacuated_member =
     \<lparr>ServerClustered = True, LocalNodeIsEvacuated = True, ServerName = ''m1'',
      InstancesPlacementScriptlet = []\<rparr>"

definition image_request :: http_request where
  "image_request =
     \<lparr>ContentType = ''application/json'',
      Body = Inr \<lparr>req_Name = ''c1'', req_InstanceType = [], req_Source_Type = ''image'',
                  req_Source_Refresh = False\<rparr>,
      isClusterNotification = False, isClusterInternal = False, CtxProtocol = ''tls'',
      target = []\<rparr>"

definition placed_on :: "NodeInfo option \<Rightarrow> dispatch_env" where
  "placed_on member =
     \<lparr>instanceParseType = None, ConnectIfInstanceIsRemote = NoClient,
      ClientCreateInstance = None,
      Transaction = Inr \<lparr>targetMemberInfo = member, targetGroupName = [],
                         candidateMembers = []\<rparr>,
      ValidName = None, LeaderAddress = None, InstancePlacementRun = Inr None,
      ClusterConnect = None\<rparr>"

section \<open>Proofs: backupCreate\<close>

text \<open>
  C8.  Whenever \<^verbatim>\<open>backupCreate\<close> gets as far as writing the backup, the compression
  algorithm it uses is the explicit \<^verbatim>\<open>CompressionAlgorithm\<close> argument if that is
  non-empty, otherwise the project's \<^verbatim>\<open>backups.compression_algorithm\<close> if that is
  non-empty, otherwise the global default; and it gets that far exactly when the pool,
  the backup row and the backup object are there and, if the argument is empty, the
  project loads.
\<close>

theorem backupCreate_compression_precedence:
  "backupCreate s args = Inr c \<longleftrightarrow>
     (\<exists>ob. LoadByInstance s = Inr ob) \<and> CreateInstanceBackup s = None \<and>
     (\<exists>b. BackupLoadByName s = Inr b) \<and>
     (if arg_CompressionAlgorithm args \<noteq> [] then c = arg_CompressionAlgorithm args
      else \<exists>p. GetProject s = Inr p \<and>
        (if cfg p ''backups.compression_algorithm'' \<noteq> []
         then c = cfg p ''backups.compression_algorithm''
         else c = BackupsCompressionAlgorithm s))"
  by (auto simp: backupCreate_def SetCompressionAlgorithm_def CompressionAlgorithm_def Let_def
      split: sum.splits option.splits)

theorem backupCreate_compression_precedence_witness:
  "backupCreate (example_backup_env [(''backups.compression_algorithm'', ''zstd'')])
       \<lparr>arg_Name = ''b1'', arg_CompressionAlgorithm = ''xz'', arg_OptimizedStorage = False\<rparr>
     = Inr ''xz''
 \<and> backupCreate (example_backup_env [(''backups.compression_algorithm'', ''zstd'')])
       \<lparr>arg_Name = ''b1'', arg_CompressionAlgorithm = [], arg_OptimizedStorage = False\<rparr>
     = Inr ''zstd''
 \<and> backupCreate (example_backup_env [])
       \<lparr>arg_Name = ''b1'', arg_CompressionAlgorithm = [], arg_OptimizedStorage = False\<rparr>
     = Inr ''gzip''"
  using backupCreate_compression_precedence
      [of "example_backup_env [(''backups.compression_algorithm'', ''zstd'')]"
          "\<lparr>arg_Name = ''b1'', arg_CompressionAlgorithm = ''xz'', arg_OptimizedStorage = False\<rparr>"
          "''xz''"]
    backupCreate_compression_precedence
      [of "example_backup_env [(''backups.compression_algorithm'', ''zstd'')]"
          "\<lparr>arg_Name = ''b1'', arg_CompressionAlgorithm = [], arg_OptimizedStorage = False\<rparr>"
          "''zstd''"]
    backupCreate_compression_precedence
      [of "example_backup_env []"
          "\<lparr>arg_Name = ''b1'', arg_CompressionAlgorithm = [], arg_OptimizedStorage = False\<rparr>"
          "''gzip''"]
  by (auto simp: example_backup_env_def cfg_def)

section \<open>Proofs: the automatic instance name\<close>

lemma loop_skips:
  "i \<le> k \<Longrightarrow> k \<le> 100 \<Longrightarrow> \<forall>j. i < j \<and> j \<le> k \<longrightarrow> gen j \<in> set names \<Longrightarrow>
   instancesPost_name_loop gen names i = instancesPost_name_loop gen names k"
proof (induction "k - i" arbitrary: i)
  case 0
  then show ?case by simp
next
  case (Suc d)
  then have "gen (i + 1) \<in> set names" "\<not> i + 1 > 100" by auto
  then have "instancesPost_name_loop gen names i = instancesPost_name_loop gen names (i + 1)"
    by (subst instancesPost_name_loop.simps) simp
  also have "\<dots> = instancesPost_name_loop gen names k"
    using Suc by (intro Suc.hyps(1)) auto
  finally show ?case .
qed

lemma loop_first_fresh:
  assumes "k \<le> 100" "\<forall>j. 0 < j \<and> j \<le> k \<longrightarrow> gen j \<in> set names" "gen (k + 1) \<notin> set names"
  shows "instancesPost_name_loop gen names 0 = Inr (gen (k + 1))"
proof -
  have "instancesPost_name_loop gen names 0 = instancesPost_name_loop gen names k"
    using assms by (intro loop_skips) auto
  also have "\<dots> = Inr (gen (k + 1))"
    using assms(3) by (subst instancesPost_name_loop.simps) simp
  finally show ?thesis .
qed

lemma loop_all_taken:
  assumes "\<forall>j. 0 < j \<and> j \<le> 101 \<longrightarrow> gen j \<in> set names"
  shows "instancesPost_name_loop gen names 0 = Inl (Errorf ''Couldn't generate a new unique name after 100 tries'' [])"
proof -
  have "instancesPost_name_loop gen names 0 = instancesPost_name_loop gen names 100"
    using assms by (intro loop_skips) auto
  also have "\<dots> = Inl (Errorf ''Couldn't generate a new unique name after 100 tries'' [])"
    using assms by (subst instancesPost_name_loop.simps) simp
  finally show ?thesis .
qed

text \<open>
  C4.  The loop draws up to 101 names, not 100: when the first hundred draws are all
  taken and the 101st is free, the request does not fail, it gets the 101st name.  The
  error \<^verbatim>\<open>Couldn't generate a new unique name after 100 tries\<close> is returned only when
  101 draws are taken.
\<close>

theorem instancesPost_name_attempt_101:
  "instancesPost_name (Inr [''a-b'']) (\<lambda>k. if k \<le> 100 then ''a-b'' else ''c-d'') [] = Inr ''c-d''"
  using loop_first_fresh [of 100 "\<lambda>k. if k \<le> 100 then ''a-b'' else ''c-d''" "[''a-b'']"]
  by (simp add: instancesPost_name_def)

section \<open>Proofs: shouldAutoRestart\<close>

lemma scan_Inl:
  "shouldAutoRestart_scan ts suf i oi = Inl k \<Longrightarrow>
     i \<le> k \<and> k < i + length suf \<and> suf ! (k - i) = 0 \<and> (\<forall>j < k - i. suf ! j \<noteq> 0)"
proof (induction suf arbitrary: i oi)
  case Nil
  then show ?case by simp
next
  case (Cons t rest)
  show ?case
  proof (cases "t = 0")
    case True
    with Cons.prems show ?thesis by (simp add: IsZero_def)
  next
    case False
    with Cons.prems obtain oi' where "shouldAutoRestart_scan ts rest (i + 1) oi' = Inl k"
      by (simp add: IsZero_def)
    from Cons.IH [OF this]
    have *: "i + 1 \<le> k" "k < i + 1 + length rest" "rest ! (k - (i + 1)) = 0"
      "\<forall>j < k - (i + 1). rest ! j \<noteq> 0" by auto
    have "k - i = Suc (k - (i + 1))" using * by simp
    with * False show ?thesis
      by (auto simp: nth_Cons split: nat.splits)
  qed
qed

lemma scan_Inr_nonzero:
  "shouldAutoRestart_scan ts suf i oi = Inr k \<Longrightarrow> \<forall>t \<in> set suf. t \<noteq> 0"
  by (induction suf arbitrary: i oi) (auto simp: IsZero_def split: if_splits)

lemma scan_Inr_min:
  "shouldAutoRestart_scan ts suf i oi = Inr k \<Longrightarrow> suf = drop i ts \<Longrightarrow> oi < length ts \<Longrightarrow>
   \<forall>j < i. ts ! oi \<le> ts ! j \<Longrightarrow> k < length ts \<and> (\<forall>j < length ts. ts ! k \<le> ts ! j)"
proof (induction suf arbitrary: i oi)
  case Nil
  then show ?case by simp
next
  case (Cons t rest)
  from Cons.prems(2) have i: "i < length ts"
    by (cases "i < length ts") auto
  have "ts ! i # drop (Suc i) ts = t # rest"
    using Cons.prems(2) Cons_nth_drop_Suc [OF i] by simp
  then have t: "t = ts ! i" and rest: "rest = drop (i + 1) ts"
    by simp_all
  let ?oi = "if Before t (ts ! oi) then i else oi"
  from Cons.prems(1) have run: "shouldAutoRestart_scan ts rest (i + 1) ?oi = Inr k"
    by (simp split: if_splits)
  have "?oi < length ts" using i Cons.prems(3) by simp
  moreover have "\<forall>j < i + 1. ts ! ?oi \<le> ts ! j"
    using Cons.prems(4) t by (auto simp: Before_def less_Suc_eq)
  ultimately show ?case
    using Cons.IH [OF run rest] by blast
qed

lemma scan_full:
  assumes "shouldAutoRestart_scan ts ts 0 0 = Inr k" "ts \<noteq> []"
  shows "k < length ts \<and> ts ! k = Min (set ts) \<and> held ts = ts"
proof -
  have k: "k < length ts" "\<forall>j < length ts. ts ! k \<le> ts ! j"
    using scan_Inr_min [OF assms(1)] assms(2) by auto
  have "ts ! k = Min (set ts)"
  proof (rule sym, rule Min_eqI)
    show "finite (set ts)" by simp
    show "ts ! k \<in> set ts" using k by simp
    fix y assume "y \<in> set ts"
    then show "ts ! k \<le> y" using k(2) by (auto simp: in_set_conv_nth)
  qed
  moreover have "held ts = ts"
    using scan_Inr_nonzero [OF assms(1)] by (simp add: held_def IsZero_def)
  ultimately show ?thesis using k by simp
qed

lemma scan_unused:
  assumes "shouldAutoRestart_scan ts ts 0 0 = Inl k"
  shows "k < length ts \<and> IsZero (ts ! k) \<and> length (held ts) < length ts"
proof -
  have k: "k < length ts" "ts ! k = 0" using scan_Inl [OF assms] by auto
  have "ts ! k \<in> set ts" using k(1) by (rule nth_mem)
  with k have "\<exists>t \<in> set ts. IsZero t" by (auto simp: IsZero_def)
  then have "length (held ts) < length ts"
    unfolding held_def by (auto intro: length_filter_less)
  with k show ?thesis by (simp add: IsZero_def)
qed


lemma fresh_ring: "(replicate 10 (0::int))[0 := x] = x # replicate 9 0"
  by (simp add: eval_nat_numeral)

lemma ring_length:
  "\<forall>ts. m i = Some ts \<longrightarrow> length ts = 10 \<Longrightarrow> length (ring m i) = 10"
  by (simp add: ring_def split: option.splits)

lemma permitted_iff:
  assumes enabled: "IsTrue (cfg (expandedConfig d) ''boot.autorestart'')"
    and len: "\<forall>ts. m (inst_id d) = Some ts \<longrightarrow> length ts = 10"
  shows "fst (shouldAutoRestart IsTrue d m now now') \<longleftrightarrow>
           length (held (ring m (inst_id d))) < 10
         \<or> Before (oldest (ring m (inst_id d))) (now - Minute)"
proof (cases "m (inst_id d)")
  case None
  then show ?thesis using enabled
    by (simp add: shouldAutoRestart_def ring_def held_def IsZero_def)
next
  case (Some ts)
  with len have l: "length ts = 10" by simp
  then have ne: "ts \<noteq> []" by auto
  show ?thesis
  proof (cases "shouldAutoRestart_scan ts ts 0 0")
    case (Inl k)
    from scan_unused [OF Inl] l have "length (held ts) < 10" by simp
    with Some Inl enabled l show ?thesis
      by (simp add: shouldAutoRestart_def ring_def)
  next
    case (Inr k)
    from scan_full [OF Inr ne] have k: "ts ! k = Min (set ts)" "held ts = ts" by auto
    with Some Inr enabled l show ?thesis
      by (simp add: shouldAutoRestart_def ring_def oldest_def)
  qed
qed

lemma permitted_slot:
  assumes enabled: "IsTrue (cfg (expandedConfig d) ''boot.autorestart'')"
    and len: "\<forall>ts. m (inst_id d) = Some ts \<longrightarrow> length ts = 10"
    and ok: "fst (shouldAutoRestart IsTrue d m now now')"
  shows "\<exists>i < 10. \<exists>t \<in> {now, now'}.
           ring (snd (shouldAutoRestart IsTrue d m now now')) (inst_id d)
             = (ring m (inst_id d))[i := t]
         \<and> (IsZero (ring m (inst_id d) ! i)
            \<or> length (held (ring m (inst_id d))) = 10
              \<and> ring m (inst_id d) ! i = oldest (ring m (inst_id d)))"
proof (cases "m (inst_id d)")
  case None
  then have "ring (snd (shouldAutoRestart IsTrue d m now now')) (inst_id d)
               = (ring m (inst_id d))[0 := now]
             \<and> IsZero (ring m (inst_id d) ! 0)"
    using enabled by (simp add: shouldAutoRestart_def ring_def fresh_ring IsZero_def)
  then show ?thesis by (intro exI [of _ 0]) auto
next
  case (Some ts)
  with len have l: "length ts = 10" by simp
  then have ne: "ts \<noteq> []" by auto
  show ?thesis
  proof (cases "shouldAutoRestart_scan ts ts 0 0")
    case (Inl k)
    from scan_unused [OF Inl] l have "k < 10" "IsZero (ts ! k)" by auto
    moreover have "ring (snd (shouldAutoRestart IsTrue d m now now')) (inst_id d) = ts[k := now]"
      using Some Inl enabled l by (simp add: shouldAutoRestart_def ring_def)
    ultimately show ?thesis using Some
      by (intro exI [of _ k]) (auto simp: ring_def)
  next
    case (Inr k)
    from scan_full [OF Inr ne] l
    have k: "k < 10" "ts ! k = oldest ts" "length (held ts) = 10"
      by (auto simp: oldest_def)
    have "Before (ts ! k) (now + (- 1 * Minute))"
      using ok Some Inr enabled l by (simp add: shouldAutoRestart_def split: if_splits)
    then have "ring (snd (shouldAutoRestart IsTrue d m now now')) (inst_id d) = ts[k := now']"
      using Some Inr enabled l by (simp add: shouldAutoRestart_def ring_def)
    with k show ?thesis using Some
      by (intro exI [of _ k]) (auto simp: ring_def)
  qed
qed

lemma refused_unchanged:
  "\<not> fst (shouldAutoRestart IsTrue d m now now') \<Longrightarrow>
     snd (shouldAutoRestart IsTrue d m now now') = m"
  by (auto simp: shouldAutoRestart_def split: option.splits sum.splits if_splits)


lemma filter_update_drop:
  "i < length xs \<Longrightarrow> P (xs ! i) \<Longrightarrow> \<not> P v \<Longrightarrow>
     Suc (length (filter P (xs[i := v]))) = length (filter P xs)"
proof (induction xs arbitrary: i)
  case Nil
  then show ?case by simp
next
  case (Cons x xs)
  then show ?case by (cases i) auto
qed

lemma held_all: "length (held ts) = length ts \<Longrightarrow> held ts = ts"
proof -
  assume a: "length (held ts) = length ts"
  have "\<forall>t \<in> set ts. \<not> IsZero t"
  proof (rule ccontr)
    assume "\<not> (\<forall>t \<in> set ts. \<not> IsZero t)"
    then have "\<exists>t \<in> set ts. \<not> \<not> IsZero t" by simp
    then have "length (filter (\<lambda>t. \<not> IsZero t) ts) < length ts"
      by (auto intro: length_filter_less)
    with a show False by (simp add: held_def)
  qed
  then show ?thesis by (simp add: held_def)
qed

lemma step_permitted_iff:
  assumes enabled: "IsTrue (cfg (expandedConfig d) ''boot.autorestart'')"
    and len: "\<forall>ts. m (inst_id d) = Some ts \<longrightarrow> length ts = 10"
    and w: "0 < w" "w \<le> now" "now \<le> w + Minute"
    and inv: "\<forall>t \<in> set (ring m (inst_id d)). spare w t \<or> w \<le> t"
  shows "fst (shouldAutoRestart IsTrue d m now now') \<longleftrightarrow>
           (\<exists>t \<in> set (ring m (inst_id d)). spare w t)"
proof -
  let ?r = "ring m (inst_id d)"
  have l: "length ?r = 10" using len by (rule ring_length)
  then have ne: "?r \<noteq> []" by auto
  have iff: "fst (shouldAutoRestart IsTrue d m now now') \<longleftrightarrow>
               length (held ?r) < 10 \<or> Before (oldest ?r) (now - Minute)"
    using enabled len by (rule permitted_iff)
  show ?thesis
  proof (cases "length (held ?r) < 10")
    case True
    with l have "held ?r \<noteq> ?r" by auto
    then have "\<exists>t \<in> set ?r. IsZero t"
      by (auto simp: held_def filter_id_conv)
    with True iff show ?thesis by (auto simp: spare_def)
  next
    case False
    have "length (held ?r) \<le> length ?r" by (simp add: held_def)
    with False l have "length (held ?r) = length ?r" by simp
    then have full: "held ?r = ?r" by (rule held_all)
    then have nz: "\<forall>t \<in> set ?r. \<not> IsZero t"
      by (simp add: held_def filter_id_conv)
    have old: "oldest ?r = Min (set ?r)" using full by (simp add: oldest_def)
    have mem: "Min (set ?r) \<in> set ?r" using ne by (intro Min_in) auto
    show ?thesis
    proof
      assume "fst (shouldAutoRestart IsTrue d m now now')"
      with iff False old have "Min (set ?r) < now - Minute" by (simp add: Before_def)
      with w have "\<not> w \<le> Min (set ?r)" by simp
      with inv mem show "\<exists>t \<in> set ?r. spare w t" by blast
    next
      assume "\<exists>t \<in> set ?r. spare w t"
      then obtain t where t: "t \<in> set ?r" "spare w t" by blast
      with nz have "t < w - Minute" by (auto simp: spare_def Before_def)
      moreover have "Min (set ?r) \<le> t" using t by simp
      ultimately have "Min (set ?r) < now - Minute" using w by simp
      with iff old show "fst (shouldAutoRestart IsTrue d m now now')"
        by (simp add: Before_def)
    qed
  qed
qed

lemma step_permitted_ring:
  assumes enabled: "IsTrue (cfg (expandedConfig d) ''boot.autorestart'')"
    and len: "\<forall>ts. m (inst_id d) = Some ts \<longrightarrow> length ts = 10"
    and w: "0 < w" "w \<le> now" "now \<le> w + Minute" "w \<le> now'"
    and inv: "\<forall>t \<in> set (ring m (inst_id d)). spare w t \<or> w \<le> t"
    and ok: "fst (shouldAutoRestart IsTrue d m now now')"
  shows "Suc (length (filter (spare w) (ring (snd (shouldAutoRestart IsTrue d m now now')) (inst_id d))))
           = length (filter (spare w) (ring m (inst_id d)))
       \<and> (\<forall>t \<in> set (ring (snd (shouldAutoRestart IsTrue d m now now')) (inst_id d)). spare w t \<or> w \<le> t)
       \<and> (\<forall>ts. snd (shouldAutoRestart IsTrue d m now now') (inst_id d) = Some ts \<longrightarrow> length ts = 10)"
proof -
  let ?r = "ring m (inst_id d)"
  let ?m' = "snd (shouldAutoRestart IsTrue d m now now')"
  have l: "length ?r = 10" using len by (rule ring_length)
  then have ne: "?r \<noteq> []" by auto
  have iff: "fst (shouldAutoRestart IsTrue d m now now') \<longleftrightarrow>
               length (held ?r) < 10 \<or> Before (oldest ?r) (now - Minute)"
    using enabled len by (rule permitted_iff)
  from permitted_slot [OF enabled len ok]
  obtain i t where i: "i < 10" and t: "t = now \<or> t = now'"
    and r': "ring ?m' (inst_id d) = ?r[i := t]"
    and slot: "IsZero (?r ! i) \<or> length (held ?r) = 10 \<and> ?r ! i = oldest ?r"
    by auto
  have mem: "?r ! i \<in> set ?r" using i l by simp
  have "spare w (?r ! i)"
  proof (cases "IsZero (?r ! i)")
    case True
    then show ?thesis by (simp add: spare_def)
  next
    case False
    with slot have full: "length (held ?r) = 10" "?r ! i = oldest ?r" by auto
    with iff ok have "?r ! i < now - Minute" by (simp add: Before_def)
    with w have "\<not> w \<le> ?r ! i" by simp
    with inv mem show ?thesis by blast
  qed
  moreover have nt: "\<not> spare w t" "w \<le> t"
    using t w by (auto simp: spare_def IsZero_def Before_def Minute_def)
  ultimately have "Suc (length (filter (spare w) (?r[i := t]))) = length (filter (spare w) ?r)"
    using i l by (intro filter_update_drop) auto
  moreover have "\<forall>u \<in> set (?r[i := t]). spare w u \<or> w \<le> u"
  proof
    fix u assume "u \<in> set (?r[i := t])"
    then have "u = t \<or> u \<in> set ?r"
      using set_update_subset_insert [of ?r i t] by auto
    with inv nt show "spare w u \<or> w \<le> u" by auto
  qed
  moreover have "\<forall>ts. ?m' (inst_id d) = Some ts \<longrightarrow> length ts = 10"
  proof (intro allI impI)
    fix ts assume "?m' (inst_id d) = Some ts"
    then have "ring ?m' (inst_id d) = ts" by (simp add: ring_def)
    with r' l show "length ts = 10" by auto
  qed
  ultimately show ?thesis using r' by simp
qed

lemma autoRestarts_count:
  assumes enabled: "IsTrue (cfg (expandedConfig d) ''boot.autorestart'')"
    and w: "0 < w"
  shows "\<forall>ts. m (inst_id d) = Some ts \<longrightarrow> length ts = 10 \<Longrightarrow>
         \<forall>t \<in> set (ring m (inst_id d)). spare w t \<or> w \<le> t \<Longrightarrow>
         \<forall>(now, now') \<in> set attempts.
            w \<le> now \<and> now \<le> w + Minute \<and> w \<le> now' \<and> now' \<le> w + Minute \<Longrightarrow>
         autoRestarts IsTrue d m attempts
           = min (length attempts) (length (filter (spare w) (ring m (inst_id d))))"
proof (induction attempts arbitrary: m)
  case Nil
  then show ?case by simp
next
  case (Cons a attempts)
  obtain now now' where a: "a = (now, now')" by (cases a)
  with Cons.prems(3) have win: "w \<le> now" "now \<le> w + Minute" "w \<le> now'"
    and rest: "\<forall>(now, now') \<in> set attempts.
            w \<le> now \<and> now \<le> w + Minute \<and> w \<le> now' \<and> now' \<le> w + Minute"
    by auto
  let ?res = "shouldAutoRestart IsTrue d m now now'"
  have iff: "fst ?res \<longleftrightarrow> (\<exists>t \<in> set (ring m (inst_id d)). spare w t)"
    using enabled Cons.prems(1) w win(1,2) Cons.prems(2) by (rule step_permitted_iff)
  have unfold: "autoRestarts IsTrue d m (a # attempts)
                  = (if fst ?res then 1 else 0) + autoRestarts IsTrue d (snd ?res) attempts"
    by (simp add: a split: prod.splits)
  show ?case
  proof (cases "fst ?res")
    case True
    from step_permitted_ring [OF enabled Cons.prems(1) w win Cons.prems(2) True]
    have n: "Suc (length (filter (spare w) (ring (snd ?res) (inst_id d))))
               = length (filter (spare w) (ring m (inst_id d)))"
      and inv': "\<forall>t \<in> set (ring (snd ?res) (inst_id d)). spare w t \<or> w \<le> t"
      and len': "\<forall>ts. snd ?res (inst_id d) = Some ts \<longrightarrow> length ts = 10"
      by auto
    have "autoRestarts IsTrue d (snd ?res) attempts
            = min (length attempts) (length (filter (spare w) (ring (snd ?res) (inst_id d))))"
      using len' inv' rest by (rule Cons.IH)
    with True n unfold show ?thesis
      by simp
  next
    case False
    then have same: "snd ?res = m" by (rule refused_unchanged)
    from False iff have none: "filter (spare w) (ring m (inst_id d)) = []"
      by (auto simp: filter_empty_conv)
    have "autoRestarts IsTrue d m attempts
            = min (length attempts) (length (filter (spare w) (ring m (inst_id d))))"
      using Cons.prems(1,2) rest by (rule Cons.IH)
    with False same none unfold show ?thesis
      by simp
  qed
qed


text \<open>
  C3, as amended.  For every instance whose \<^verbatim>\<open>boot.autorestart\<close> is true, an
  auto-restart is permitted if and only if fewer than 10 slots of its ring hold a
  timestamp or the oldest timestamp held is more than one minute older than the clock;
  a permitted attempt writes the current time over one slot, an unused one or the one
  holding the oldest timestamp, and a refused attempt changes nothing.  Consequently,
  of any sequence of attempts whose clock readings lie in a one-minute window
  \<open>[w, w + Minute]\<close>, on a ring whose slots are unused or more than a minute older than
  \<open>w\<close>, exactly \<open>min N 10\<close> are permitted.
\<close>

theorem shouldAutoRestart_budget:
  assumes enabled: "IsTrue (cfg (expandedConfig d) ''boot.autorestart'')"
    and len: "\<forall>ts. m (inst_id d) = Some ts \<longrightarrow> length ts = 10"
  shows "(fst (shouldAutoRestart IsTrue d m now now') \<longleftrightarrow>
            length (held (ring m (inst_id d))) < 10
          \<or> Before (oldest (ring m (inst_id d))) (now - Minute))
       \<and> (fst (shouldAutoRestart IsTrue d m now now') \<longrightarrow>
            (\<exists>i < 10. \<exists>t \<in> {now, now'}.
               ring (snd (shouldAutoRestart IsTrue d m now now')) (inst_id d)
                 = (ring m (inst_id d))[i := t]
             \<and> (IsZero (ring m (inst_id d) ! i)
                \<or> length (held (ring m (inst_id d))) = 10
                  \<and> ring m (inst_id d) ! i = oldest (ring m (inst_id d)))))
       \<and> (\<not> fst (shouldAutoRestart IsTrue d m now now') \<longrightarrow>
            snd (shouldAutoRestart IsTrue d m now now') = m)
       \<and> (0 < w \<and> (\<forall>t \<in> set (ring m (inst_id d)). spare w t)
          \<and> (\<forall>(t, t') \<in> set attempts.
                w \<le> t \<and> t \<le> w + Minute \<and> w \<le> t' \<and> t' \<le> w + Minute) \<longrightarrow>
            autoRestarts IsTrue d m attempts = min (length attempts) 10)"
proof (intro conjI impI)
  show "fst (shouldAutoRestart IsTrue d m now now') \<longleftrightarrow>
            length (held (ring m (inst_id d))) < 10
          \<or> Before (oldest (ring m (inst_id d))) (now - Minute)"
    using enabled len by (rule permitted_iff)
next
  assume "fst (shouldAutoRestart IsTrue d m now now')"
  with enabled len show "\<exists>i < 10. \<exists>t \<in> {now, now'}.
               ring (snd (shouldAutoRestart IsTrue d m now now')) (inst_id d)
                 = (ring m (inst_id d))[i := t]
             \<and> (IsZero (ring m (inst_id d) ! i)
                \<or> length (held (ring m (inst_id d))) = 10
                  \<and> ring m (inst_id d) ! i = oldest (ring m (inst_id d)))"
    by (rule permitted_slot)
next
  assume "\<not> fst (shouldAutoRestart IsTrue d m now now')"
  then show "snd (shouldAutoRestart IsTrue d m now now') = m"
    by (rule refused_unchanged)
next
  assume a: "0 < w \<and> (\<forall>t \<in> set (ring m (inst_id d)). spare w t)
          \<and> (\<forall>(t, t') \<in> set attempts.
                w \<le> t \<and> t \<le> w + Minute \<and> w \<le> t' \<and> t' \<le> w + Minute)"
  then have w: "0 < w" and all: "\<forall>t \<in> set (ring m (inst_id d)). spare w t"
    and win: "\<forall>(t, t') \<in> set attempts.
                w \<le> t \<and> t \<le> w + Minute \<and> w \<le> t' \<and> t' \<le> w + Minute"
    by blast+
  from all have inv: "\<forall>t \<in> set (ring m (inst_id d)). spare w t \<or> w \<le> t" by blast
  from all have "filter (spare w) (ring m (inst_id d)) = ring m (inst_id d)"
    by (simp add: filter_id_conv)
  then have "length (filter (spare w) (ring m (inst_id d))) = 10"
    using len ring_length [of m "inst_id d"] by simp
  moreover have "autoRestarts IsTrue d m attempts
           = min (length attempts) (length (filter (spare w) (ring m (inst_id d))))"
    using enabled w len inv win by (rule autoRestarts_count)
  ultimately show "autoRestarts IsTrue d m attempts = min (length attempts) 10" by simp
qed

theorem shouldAutoRestart_budget_witness:
  "cfg (expandedConfig example_instance) ''boot.autorestart'' = ''true''
 \<and> (Map.empty :: int \<rightharpoonup> time list) (inst_id example_instance) = None
 \<and> length (held (ring Map.empty (inst_id example_instance))) < 10
 \<and> fst (shouldAutoRestart (\<lambda>v. v = ''true'') example_instance Map.empty 100 101)
 \<and> (0::int) < 100
 \<and> list_all (spare 100) (ring Map.empty (inst_id example_instance))
 \<and> list_all (\<lambda>(t, t'). 100 \<le> t \<and> t \<le> 100 + Minute \<and> 100 \<le> t' \<and> t' \<le> 100 + Minute)
       (replicate 11 (100, 101))
 \<and> autoRestarts (\<lambda>v. v = ''true'') example_instance Map.empty (replicate 11 (100, 101)) = 10"
proof -
  have enabled: "(\<lambda>v. v = ''true'') (cfg (expandedConfig example_instance) ''boot.autorestart'')"
    by (simp add: example_instance_def cfg_def)
  have len: "\<forall>ts. (Map.empty :: int \<rightharpoonup> time list) (inst_id example_instance) = Some ts
               \<longrightarrow> length ts = 10"
    by simp
  have fresh: "length (held (ring Map.empty (inst_id example_instance))) < 10"
    by (simp add: held_def ring_def IsZero_def)
  have spare: "\<forall>t \<in> set (ring Map.empty (inst_id example_instance)). spare 100 t"
    by (simp add: ring_def spare_def IsZero_def)
  have win: "\<forall>(t, t') \<in> set (replicate 11 (100, 101)).
       100 \<le> t \<and> t \<le> 100 + Minute \<and> 100 \<le> t' \<and> t' \<le> 100 + Minute"
    by (simp add: Minute_def)
  note t = shouldAutoRestart_budget
      [where IsTrue = "\<lambda>v. v = ''true''" and d = example_instance and m = Map.empty
         and now = 100 and now' = 101 and w = 100 and attempts = "replicate 11 (100, 101)"]
  from t enabled len fresh
  have "fst (shouldAutoRestart (\<lambda>v. v = ''true'') example_instance Map.empty 100 101)"
    by blast
  moreover from t enabled len spare win
  have "autoRestarts (\<lambda>v. v = ''true'') example_instance Map.empty (replicate 11 (100, 101)) = 10"
    by simp
  ultimately show ?thesis using enabled fresh spare win
    by (simp add: list_all_iff)
qed

text \<open>
  C3 as stated does not hold for an instance whose \<^verbatim>\<open>boot.autorestart\<close> is not true:
  no slot of its ring is filled, and the auto-restart is refused.
\<close>

theorem shouldAutoRestart_disabled_counterexample:
  "length (held (ring Map.empty 7)) < 10
 \<and> shouldAutoRestart (\<lambda>v. v = ''true'') (example_instance\<lparr>expandedConfig := []\<rparr>) Map.empty 100 101
     = (False, Map.empty)"
  by (simp add: shouldAutoRestart_def example_instance_def cfg_def held_def ring_def IsZero_def)


section \<open>Proofs: VolatileSet and the device closures\<close>

lemma HasPrefix_append [simp]: "HasPrefix (p @ s) p"
  by (simp add: HasPrefix_def)

lemma HasPrefix_split: "HasPrefix s p \<Longrightarrow> s = p @ TrimPrefix s p"
  by (simp add: HasPrefix_def TrimPrefix_def) (metis append_take_drop_id)

lemma TrimPrefix_append [simp]: "TrimPrefix (p @ s) p = s"
  by (simp add: TrimPrefix_def)

lemma apply_local:
  "map_of (localConfig (VolatileSet_apply (k, v) d))
     = (if v = [] then (map_of (localConfig d))(k := None) else (map_of (localConfig d))(k \<mapsto> v))"
  by (simp add: VolatileSet_apply_def update_conv' delete_conv')


lemma fold_apply_local:
  "distinct (map fst changes) \<Longrightarrow>
   map_of (localConfig (fold VolatileSet_apply changes d)) k
     = (case map_of changes k of None \<Rightarrow> map_of (localConfig d) k
        | Some v \<Rightarrow> if v = [] then None else Some v)"
proof (induction changes arbitrary: d)
  case Nil
  then show ?case by simp
next
  case (Cons c changes)
  obtain k' v' where c: "c = (k', v')" by (cases c)
  from Cons.prems have d: "distinct (map fst changes)" and nk: "k' \<notin> fst ` set changes"
    by (auto simp: c)
  from nk have none: "map_of changes k' = None" by (simp add: map_of_eq_None_iff)
  show ?case
    using Cons.IH [OF d, of "VolatileSet_apply (k', v') d"] none
    by (auto simp: c apply_local split: option.splits)
qed


lemma fold_apply_distinct:
  "distinct (map fst (localConfig d)) \<Longrightarrow>
   distinct (map fst (localConfig (fold VolatileSet_apply changes d)))"
proof (induction changes arbitrary: d)
  case Nil
  then show ?case by simp
next
  case (Cons c changes)
  obtain k' v' where c: "c = (k', v')" by (cases c)
  have "distinct (map fst (localConfig (VolatileSet_apply (k', v') d)))"
    using Cons.prems by (simp add: VolatileSet_apply_def distinct_update distinct_delete)
  then show ?case using Cons.IH by (simp add: c)
qed


lemma get_fold:
  "distinct (map fst lc) \<Longrightarrow>
   map_of (fold (\<lambda>(k, v) volatile.
                   if HasPrefix k p then AList.update (TrimPrefix k p) v volatile else volatile)
                lc acc) key
     = (case map_of lc (p @ key) of Some v \<Rightarrow> Some v | None \<Rightarrow> map_of acc key)"
proof (induction lc arbitrary: acc)
  case Nil
  then show ?case by simp
next
  case (Cons c lc)
  obtain k v where c: "c = (k, v)" by (cases c)
  from Cons.prems have d: "distinct (map fst lc)" and nk: "k \<notin> fst ` set lc"
    by (auto simp: c)
  show ?case
  proof (cases "k = p @ key")
    case True
    with nk have "map_of lc (p @ key) = None" by (simp add: map_of_eq_None_iff)
    with True show ?thesis
      using Cons.IH [OF d] by (simp add: c update_conv')
  next
    case False
    then have "HasPrefix k p \<Longrightarrow> TrimPrefix k p \<noteq> key"
      using HasPrefix_split [of k p] by auto
    with False show ?thesis
      using Cons.IH [OF d] by (auto simp: c update_conv' split: option.splits)
  qed
qed

lemma deviceVolatileGetFunc_lookup:
  assumes "distinct (map fst (localConfig d))"
  shows "map_of (deviceVolatileGetFunc d devName) key
           = map_of (localConfig d) ((''volatile.'' @ devName @ ''.'') @ key)"
proof -
  define p where "p = ''volatile.'' @ devName @ ''.''"
  have "deviceVolatileGetFunc d devName
          = fold (\<lambda>(k, v) volatile.
                    if HasPrefix k p then AList.update (TrimPrefix k p) v volatile else volatile)
                 (localConfig d) []"
    unfolding deviceVolatileGetFunc_def Let_def p_def by (rule refl)
  then have "map_of (deviceVolatileGetFunc d devName) key
               = (case map_of (localConfig d) (p @ key) of Some v \<Rightarrow> Some v | None \<Rightarrow> map_of [] key)"
    using get_fold [OF assms, of p "[]" key] by (simp only:)
  then show ?thesis
    unfolding p_def by (simp split: option.splits)
qed

lemma save_fold_lookup:
  "distinct (map fst save) \<Longrightarrow> (k, v) \<in> set save \<Longrightarrow>
   map_of (fold (\<lambda>(k, v) volatileSave. AList.update (p @ k) v volatileSave) save acc) (p @ k)
     = Some v"
proof (induction save arbitrary: acc)
  case Nil
  then show ?case by simp
next
  case (Cons c save)
  obtain k' v' where c: "c = (k', v')" by (cases c)
  from Cons.prems(1) have d: "distinct (map fst save)" and nk: "k' \<notin> fst ` set save"
    by (auto simp: c)
  show ?case
  proof (cases "(k, v) \<in> set save")
    case True
    then show ?thesis using Cons.IH [OF d] by (simp add: c)
  next
    case False
    with Cons.prems(2) have kv: "k' = k" "v' = v" by (auto simp: c)
    have keep: "map_of (fold (\<lambda>(k, v) volatileSave. AList.update (p @ k) v volatileSave) save acc') (p @ k)
                  = map_of acc' (p @ k)" if "k \<notin> fst ` set save" for acc'
      using that
    proof (induction save arbitrary: acc')
      case Nil
      then show ?case by simp
    next
      case (Cons e save)
      then show ?case by (cases e) (auto simp: update_conv')
    qed
    from nk kv show ?thesis
      by (simp add: c keep update_conv')
  qed
qed

lemma save_fold_keys:
  "fst ` set (fold (\<lambda>(k, v) volatileSave. AList.update (p @ k) v volatileSave) save acc)
     \<subseteq> fst ` set acc \<union> (\<lambda>k. p @ k) ` fst ` set save"
proof (induction save arbitrary: acc)
  case Nil
  then show ?case by simp
next
  case (Cons c save)
  obtain k v where c: "c = (k, v)" by (cases c)
  show ?case
    using Cons.IH [of "AList.update (p @ k) v acc"]
    by (auto simp: c dom_update)
qed

lemma save_fold_distinct:
  "distinct (map fst acc) \<Longrightarrow>
   distinct (map fst (fold (\<lambda>(k, v) volatileSave. AList.update (p @ k) v volatileSave) save acc))"
proof (induction save arbitrary: acc)
  case Nil
  then show ?case by simp
next
  case (Cons c save)
  then show ?case by (cases c) (simp add: distinct_update)
qed




lemma VolatileSet_applied:
  "\<not> list_ex (\<lambda>key. \<not> HasPrefix key ConfigVolatilePrefix) (map fst changes) \<Longrightarrow>
   fst (VolatileSet tx d db changes) = None \<Longrightarrow>
   fst (snd (VolatileSet tx d db changes)) = fold VolatileSet_apply changes d"
  by (auto simp: VolatileSet_def split: prod.splits option.splits if_splits)





lemma volatileSave_volatile:
  "\<not> list_ex (\<lambda>key. \<not> HasPrefix key ConfigVolatilePrefix)
       (map fst (fold (\<lambda>(k, v) volatileSave.
                        AList.update ((''volatile.'' @ devName @ ''.'') @ k) v volatileSave)
                      save []))"
proof -
  define p where "p = ''volatile.'' @ devName @ ''.''"
  have "fst ` set (fold (\<lambda>(k, v) volatileSave. AList.update (p @ k) v volatileSave) save [])
          \<subseteq> fst ` set [] \<union> (\<lambda>k. p @ k) ` fst ` set save"
    using save_fold_keys [of p save "[]"] by simp
  moreover have "\<forall>k. HasPrefix (p @ k) ConfigVolatilePrefix"
    by (simp add: p_def HasPrefix_def ConfigVolatilePrefix_def)
  ultimately have "\<forall>key \<in> fst ` set (fold (\<lambda>(k, v) volatileSave.
                        AList.update (p @ k) v volatileSave) save []).
                     HasPrefix key ConfigVolatilePrefix"
    by auto
  then show ?thesis
    unfolding p_def list_ex_iff by simp
qed

text \<open>
  C10, as amended.  For every device name and every map \<open>m\<close> with non-empty values,
  when the set closure called with \<open>m\<close> returns no error, localConfig holds each value
  of \<open>m\<close> under \<^verbatim>\<open>volatile.<d>.<k>\<close> and the get closure then yields a map that agrees
  with \<open>m\<close> on every key of \<open>m\<close>.
\<close>

theorem deviceVolatile_roundtrip:
  assumes keys: "distinct (map fst m)"
    and vals: "\<forall>v \<in> snd ` set m. v \<noteq> []"
    and wf: "distinct (map fst (localConfig d))"
    and ok: "fst (deviceVolatileSetFunc tx d db devName m) = None"
  shows "\<forall>(k, v) \<in> set m.
           map_of (localConfig (fst (snd (deviceVolatileSetFunc tx d db devName m))))
                  (''volatile.'' @ devName @ ''.'' @ k) = Some v
         \<and> map_of (deviceVolatileGetFunc (fst (snd (deviceVolatileSetFunc tx d db devName m))) devName) k
             = Some v"
proof -
  define p where "p = ''volatile.'' @ devName @ ''.''"
  define vs where "vs = fold (\<lambda>(k, v) volatileSave. AList.update (p @ k) v volatileSave) m []"
  have set_eq: "deviceVolatileSetFunc tx d db devName m = VolatileSet tx d db vs"
    by (simp add: deviceVolatileSetFunc_def vs_def p_def Let_def)
  have checked: "\<not> list_ex (\<lambda>key. \<not> HasPrefix key ConfigVolatilePrefix) (map fst vs)"
    using volatileSave_volatile [of devName m] unfolding vs_def p_def .
  have dvs: "distinct (map fst vs)"
    unfolding vs_def by (rule save_fold_distinct) simp
  let ?d' = "fst (snd (deviceVolatileSetFunc tx d db devName m))"
  have d': "?d' = fold VolatileSet_apply vs d"
    using ok unfolding set_eq by (intro VolatileSet_applied checked)
  have wf': "distinct (map fst (localConfig ?d'))"
    unfolding d' using wf by (rule fold_apply_distinct)
  show ?thesis
  proof (intro ballI, clarify)
    fix k v assume kv: "(k, v) \<in> set m"
    with vals have nonempty: "v \<noteq> []" by force
    have "map_of vs (p @ k) = Some v"
      unfolding vs_def using keys kv by (rule save_fold_lookup)
    then have stored: "map_of (localConfig ?d') (p @ k) = Some v"
      unfolding d' using nonempty by (simp add: fold_apply_local [OF dvs])
    moreover have "map_of (deviceVolatileGetFunc ?d' devName) k = map_of (localConfig ?d') (p @ k)"
      unfolding p_def using wf' by (rule deviceVolatileGetFunc_lookup)
    ultimately show "map_of (localConfig ?d') (''volatile.'' @ devName @ ''.'' @ k) = Some v
         \<and> map_of (deviceVolatileGetFunc ?d' devName) k = Some v"
      by (simp add: p_def)
  qed
qed

theorem deviceVolatile_roundtrip_witness:
  "distinct (map fst [(''hwaddr'', ''00:16:3e:aa:bb:cc''), (''name'', ''eth0'')])
 \<and> list_all (\<lambda>v. v \<noteq> []) (map snd [(''hwaddr'', ''00:16:3e:aa:bb:cc''), (''name'', ''eth0'')])
 \<and> distinct (map fst (localConfig example_instance))
 \<and> fst (deviceVolatileSetFunc working_cluster example_instance [] ''eth0''
          [(''hwaddr'', ''00:16:3e:aa:bb:cc''), (''name'', ''eth0'')]) = None
 \<and> map_of (deviceVolatileGetFunc
       (fst (snd (deviceVolatileSetFunc working_cluster example_instance [] ''eth0''
          [(''hwaddr'', ''00:16:3e:aa:bb:cc''), (''name'', ''eth0'')]))) ''eth0'') ''hwaddr''
     = Some ''00:16:3e:aa:bb:cc''"
proof -
  have keys: "distinct (map fst [(''hwaddr'', ''00:16:3e:aa:bb:cc''), (''name'', ''eth0'')])"
    by simp
  have vals: "\<forall>v \<in> snd ` set [(''hwaddr'', ''00:16:3e:aa:bb:cc''), (''name'', ''eth0'')]. v \<noteq> []"
    by simp
  have wf: "distinct (map fst (localConfig example_instance))"
    by (simp add: example_instance_def)
  have ok: "fst (deviceVolatileSetFunc working_cluster example_instance [] ''eth0''
          [(''hwaddr'', ''00:16:3e:aa:bb:cc''), (''name'', ''eth0'')]) = None"
    by (simp add: deviceVolatileSetFunc_def VolatileSet_def working_cluster_def
        example_instance_def HasPrefix_def ConfigVolatilePrefix_def)
  from deviceVolatile_roundtrip [OF keys vals wf ok]
  have "map_of (deviceVolatileGetFunc
       (fst (snd (deviceVolatileSetFunc working_cluster example_instance [] ''eth0''
          [(''hwaddr'', ''00:16:3e:aa:bb:cc''), (''name'', ''eth0'')]))) ''eth0'') ''hwaddr''
     = Some ''00:16:3e:aa:bb:cc''"
    by simp
  moreover have "list_all (\<lambda>v. v \<noteq> [])
      (map snd [(''hwaddr'', ''00:16:3e:aa:bb:cc''), (''name'', ''eth0'')])"
    by simp
  ultimately show ?thesis using keys wf ok by blast
qed

text \<open>
  C10 as stated does not hold when the database update fails: the set closure returns
  an error, localConfig is as it was and the get closure does not yield the value.
\<close>

theorem deviceVolatile_database_failure_counterexample:
  "fst (deviceVolatileSetFunc failing_cluster example_instance () ''eth0''
          [(''name'', ''eth0'')])
     = Some (Wrapf ''Failed to set volatile config: %w'' [] (Errorf ''database is locked'' []))
 \<and> map_of (deviceVolatileGetFunc
       (fst (snd (deviceVolatileSetFunc failing_cluster example_instance () ''eth0''
          [(''name'', ''eth0'')]))) ''eth0'') ''name''
     = None"
  by (simp add: deviceVolatileSetFunc_def deviceVolatileGetFunc_def VolatileSet_def
      failing_cluster_def example_instance_def HasPrefix_def TrimPrefix_def ConfigVolatilePrefix_def)


section \<open>Proofs: needsNewInstanceID\<close>


section \<open>Proofs: network ACL validation\<close>

lemma first_error_None: "first_error f xs = None \<longleftrightarrow> (\<forall>x \<in> set xs. f x = None)"
  by (induction xs) (auto split: option.splits)

lemma duplicates_checked:
  assumes "first_error (validateConfig_rule env direction rules) (enumerate 0 rules) = None"
  shows "distinct rules \<and> (\<forall>rule \<in> set rules. validateRule env direction rule = None)"
proof -
  have all: "\<forall>i < length rules. validateConfig_rule env direction rules (i, rules ! i) = None"
    using assms by (auto simp: first_error_None in_set_enumerate_eq)
  have "\<forall>i < length rules. \<forall>j < length rules. i \<noteq> j \<longrightarrow> rules ! i \<noteq> rules ! j"
  proof (intro allI impI)
    fix i j assume i: "i < length rules" and j: "j < length rules" and ne: "i \<noteq> j"
    from all i have "first_error
               (\<lambda>(ri, r). if ri = i then None
                  else if r = rules ! i
                  then Some (Errorf (''Duplicate of '' @ direction_name direction @ '' rule %d'')
                                [Num i])
                  else None)
               (enumerate 0 rules) = None"
      by (auto simp: validateConfig_rule_def split: option.splits)
    moreover have "(j, rules ! j) \<in> set (enumerate 0 rules)"
      using j by (simp add: in_set_enumerate_eq)
    ultimately have "(if j = i then None
                  else if rules ! j = rules ! i
                  then Some (Errorf (''Duplicate of '' @ direction_name direction @ '' rule %d'')
                                [Num i])
                  else None) = None"
      unfolding first_error_None by fastforce
    with ne show "rules ! i \<noteq> rules ! j" by (auto split: if_splits)
  qed
  then have "distinct rules" by (auto simp: distinct_conv_nth)
  moreover have "\<forall>rule \<in> set rules. validateRule env direction rule = None"
  proof
    fix rule assume "rule \<in> set rules"
    then obtain i where "i < length rules" "rule = rules ! i" by (auto simp: in_set_conv_nth)
    with all show "validateRule env direction rule = None"
      by (auto simp: validateConfig_rule_def split: option.splits)
  qed
  ultimately show ?thesis by simp
qed

text \<open>
  C5.  \<^verbatim>\<open>validateConfig\<close> returns no error only if, after normalising every rule, no
  two rules at different positions of Ingress are equal and no two rules at different
  positions of Egress are equal; the configuration it leaves holds the normalised
  rules.
\<close>

theorem validateConfig_no_duplicates:
  assumes "fst (validateConfig env info) = None"
  shows "(\<forall>i j. i < length (Ingress info) \<and> j < length (Ingress info) \<and> i \<noteq> j \<longrightarrow>
            Normalise env (Ingress info ! i) \<noteq> Normalise env (Ingress info ! j))
       \<and> (\<forall>i j. i < length (Egress info) \<and> j < length (Egress info) \<and> i \<noteq> j \<longrightarrow>
            Normalise env (Egress info ! i) \<noteq> Normalise env (Egress info ! j))
       \<and> Ingress (snd (validateConfig env info)) = map (Normalise env) (Ingress info)
       \<and> Egress (snd (validateConfig env info)) = map (Normalise env) (Egress info)"
proof -
  let ?ing = "map (Normalise env) (Ingress info)"
  let ?eg = "map (Normalise env) (Egress info)"
  from assms have i: "first_error (validateConfig_rule env ruleDirectionIngress ?ing)
                        (enumerate 0 ?ing) = None"
    and e: "first_error (validateConfig_rule env ruleDirectionEgress ?eg)
                        (enumerate 0 ?eg) = None"
    and n: "Ingress (snd (validateConfig env info)) = ?ing"
           "Egress (snd (validateConfig env info)) = ?eg"
    by (auto simp: validateConfig_def Let_def split: option.splits)
  from duplicates_checked [OF i] have "distinct ?ing" by simp
  moreover from duplicates_checked [OF e] have "distinct ?eg" by simp
  ultimately show ?thesis using n
    by (auto simp: distinct_conv_nth)
qed

theorem validateConfig_no_duplicates_witness:
  "fst (validateConfig example_acl_env example_acl) = None
 \<and> Normalise example_acl_env (Ingress example_acl ! 0)
      \<noteq> Normalise example_acl_env (Ingress example_acl ! 1)
 \<and> Ingress (snd (validateConfig example_acl_env example_acl)) = Ingress example_acl"
proof -
  have ok: "fst (validateConfig example_acl_env example_acl) = None"
    by (simp add: validateConfig_def validateConfigMap_def validateConfig_rule_def validateRule_def
        validateRule_subjects_def validateRule_protocol_def ValidActions_def example_acl_def
        example_rule_def example_acl_env_def HasPrefix_def enumerate_eq_zip upt_rec)
  note t = validateConfig_no_duplicates [OF ok]
  have positions: "(0::nat) < length (Ingress example_acl) \<and> (1::nat) < length (Ingress example_acl)
      \<and> (0::nat) \<noteq> 1"
    by (simp add: example_acl_def)
  have "Normalise example_acl_env (Ingress example_acl ! 0)
      \<noteq> Normalise example_acl_env (Ingress example_acl ! 1)"
    using t [THEN conjunct1, THEN spec, THEN spec, THEN mp, OF positions] .
  moreover have "Ingress (snd (validateConfig example_acl_env example_acl))
      = map (Normalise example_acl_env) (Ingress example_acl)"
    using t by simp
  then have "Ingress (snd (validateConfig example_acl_env example_acl)) = Ingress example_acl"
    by (simp add: example_acl_env_def)
  ultimately show ?thesis using ok by simp
qed

lemma validSubject_address:
  "address_subject env s = Some v \<Longrightarrow> validSubject env allow f d names s = Inr v"
  by (auto simp: address_subject_def validSubject_def split: sum.splits)

lemma validSubject_named_rejected:
  assumes "named_subject env s" "GetNetworkACLIDsByNames env = Inr acls"
  shows "validSubject env False f d
           (ruleSubjectInternalAliases @ ruleSubjectExternalAliases @ map fst acls) s
         = Inl (Errorf ''Named subjects not allowed in %q for %q rules''
                  [Str f, Str (direction_name d)])"
  using assms
  by (auto simp: named_subject_def address_subject_def validSubject_def split: sum.splits)

lemma validSubject_named_accepted:
  assumes "named_subject env s" "GetNetworkACLIDsByNames env = Inr acls"
  shows "validSubject env True f d
           (ruleSubjectInternalAliases @ ruleSubjectExternalAliases @ map fst acls) s
         = Inr 0"
  using assms
  by (auto simp: named_subject_def address_subject_def validSubject_def split: sum.splits)

lemma validSubject_address_set:
  assumes "address_set_subject env s" "GetNetworkACLIDsByNames env = Inr acls"
  shows "validSubject env allow f d
           (ruleSubjectInternalAliases @ ruleSubjectExternalAliases @ map fst acls) s
         = Inr 0"
  using assms
  by (auto simp: address_set_subject_def named_subject_def address_subject_def validSubject_def
      Let_def split: sum.splits)

lemma loop_error:
  "s \<in> set subjects \<Longrightarrow> valid s = Inl e \<Longrightarrow>
   \<exists>e'. validateRuleSubjects_loop valid subjects flags = Inl e'"
proof (induction subjects arbitrary: flags)
  case Nil
  then show ?case by simp
next
  case (Cons x subjects)
  obtain n a b where flags: "flags = (n, a, b)" by (cases flags)
  show ?case
  proof (cases "valid x")
    case (Inl e0)
    then show ?thesis by (simp add: flags)
  next
    case (Inr v)
    with Cons.prems have "s \<in> set subjects" by auto
    from Cons.IH [OF this Cons.prems(2)] Inr show ?thesis by (simp add: flags)
  qed
qed

lemma loop_IPv6:
  "validateRuleSubjects_loop valid subjects (n, a, b) = Inr (n', a', b') \<Longrightarrow>
   b' \<longleftrightarrow> b \<or> (\<exists>s \<in> set subjects. valid s = Inr 6)"
proof (induction subjects arbitrary: n a b)
  case Nil
  then show ?case by simp
next
  case (Cons x subjects)
  then show ?case
    by (cases "valid x") (auto split: if_splits)
qed

lemma prefix_source:
  assumes "validateRule_subjects env direction rule = Inr (sf, df)" "Source rule \<noteq> []"
  shows "\<exists>acls. GetNetworkACLIDsByNames env = Inr acls \<and>
          validateRuleSubjects env ''Source'' direction (SplitNTrimSpace env (Source rule))
            (ruleSubjectInternalAliases @ ruleSubjectExternalAliases @ map fst acls) = Inr sf"
proof (cases "GetNetworkACLIDsByNames env")
  case (Inl e)
  with assms show ?thesis
    by (simp add: validateRule_subjects_def split: if_splits)
next
  case (Inr acls)
  with assms show ?thesis
    by (simp add: validateRule_subjects_def Let_def split: if_splits sum.splits prod.splits)
qed

lemma prefix_destination:
  assumes "validateRule_subjects env direction rule = Inr (sf, df)" "Destination rule \<noteq> []"
  shows "\<exists>acls. GetNetworkACLIDsByNames env = Inr acls \<and>
          validateRuleSubjects env ''Destination'' direction (SplitNTrimSpace env (Destination rule))
            (ruleSubjectInternalAliases @ ruleSubjectExternalAliases @ map fst acls) = Inr df"
proof (cases "GetNetworkACLIDsByNames env")
  case (Inl e)
  with assms show ?thesis
    by (simp add: validateRule_subjects_def split: if_splits)
next
  case (Inr acls)
  with assms show ?thesis
    by (simp add: validateRule_subjects_def Let_def split: if_splits sum.splits prod.splits)
qed

lemma validateRule_None_prefix:
  "validateRule env direction rule = None \<Longrightarrow> \<exists>sf df. validateRule_subjects env direction rule = Inr (sf, df)"
  by (cases "validateRule_subjects env direction rule") (auto simp: validateRule_def)

text \<open>
  C2, as amended.  A named subject (the name of an ACL, \<^verbatim>\<open>@peer\<close>, \<^verbatim>\<open>@internal\<close>,
  \<^verbatim>\<open>@external\<close> or their \<^verbatim>\<open>#\<close> aliases) is accepted only in the origin field: when the
  Destination of an ingress rule or the Source of an egress rule contains one,
  \<^verbatim>\<open>validateRule\<close> returns an error, and in Source for ingress and Destination for egress
  the subject validation accepts it.  An address-set subject (\<^verbatim>\<open>$name\<close>, the set
  existing) is accepted in every field and direction.
\<close>

theorem named_subjects_only_in_origin_field:
  "(named_subject env s \<and> Destination rule \<noteq> []
      \<and> s \<in> set (SplitNTrimSpace env (Destination rule)) \<longrightarrow>
      validateRule env ruleDirectionIngress rule \<noteq> None)
 \<and> (named_subject env s \<and> Source rule \<noteq> []
      \<and> s \<in> set (SplitNTrimSpace env (Source rule)) \<longrightarrow>
      validateRule env ruleDirectionEgress rule \<noteq> None)
 \<and> (named_subject env s \<and> GetNetworkACLIDsByNames env = Inr acls \<longrightarrow>
      validateRuleSubjects env ''Source'' ruleDirectionIngress [s]
        (ruleSubjectInternalAliases @ ruleSubjectExternalAliases @ map fst acls)
        = Inr (True, False, False)
    \<and> validateRuleSubjects env ''Destination'' ruleDirectionEgress [s]
        (ruleSubjectInternalAliases @ ruleSubjectExternalAliases @ map fst acls)
        = Inr (True, False, False))
 \<and> (address_set_subject env s \<and> GetNetworkACLIDsByNames env = Inr acls \<longrightarrow>
      validateRuleSubjects env fieldName direction [s]
        (ruleSubjectInternalAliases @ ruleSubjectExternalAliases @ map fst acls)
        = Inr (True, False, False))"
proof (intro conjI impI)
  assume a: "named_subject env s \<and> Destination rule \<noteq> []
      \<and> s \<in> set (SplitNTrimSpace env (Destination rule))"
  show "validateRule env ruleDirectionIngress rule \<noteq> None"
  proof
    assume "validateRule env ruleDirectionIngress rule = None"
    then obtain sf df where "validateRule_subjects env ruleDirectionIngress rule = Inr (sf, df)"
      using validateRule_None_prefix by blast
    with a have "\<exists>acls. GetNetworkACLIDsByNames env = Inr acls \<and>
          validateRuleSubjects env ''Destination'' ruleDirectionIngress
            (SplitNTrimSpace env (Destination rule))
            (ruleSubjectInternalAliases @ ruleSubjectExternalAliases @ map fst acls) = Inr df"
      by (intro prefix_destination) auto
    then obtain acls where
      acls: "GetNetworkACLIDsByNames env = Inr acls"
      and ok: "validateRuleSubjects env ''Destination'' ruleDirectionIngress
            (SplitNTrimSpace env (Destination rule))
            (ruleSubjectInternalAliases @ ruleSubjectExternalAliases @ map fst acls) = Inr df"
      by auto
    from a acls have "validSubject env False ''Destination'' ruleDirectionIngress
           (ruleSubjectInternalAliases @ ruleSubjectExternalAliases @ map fst acls) s
         = Inl (Errorf ''Named subjects not allowed in %q for %q rules''
                  [Str ''Destination'', Str (direction_name ruleDirectionIngress)])"
      by (intro validSubject_named_rejected) auto
    with a have "\<exists>e'. validateRuleSubjects_loop
           (validSubject env False ''Destination'' ruleDirectionIngress
              (ruleSubjectInternalAliases @ ruleSubjectExternalAliases @ map fst acls))
           (SplitNTrimSpace env (Destination rule)) (False, False, False) = Inl e'"
      by (intro loop_error) auto
    with ok show False by (simp add: validateRuleSubjects_def)
  qed
next
  assume a: "named_subject env s \<and> Source rule \<noteq> []
      \<and> s \<in> set (SplitNTrimSpace env (Source rule))"
  show "validateRule env ruleDirectionEgress rule \<noteq> None"
  proof
    assume "validateRule env ruleDirectionEgress rule = None"
    then obtain sf df where "validateRule_subjects env ruleDirectionEgress rule = Inr (sf, df)"
      using validateRule_None_prefix by blast
    with a have "\<exists>acls. GetNetworkACLIDsByNames env = Inr acls \<and>
          validateRuleSubjects env ''Source'' ruleDirectionEgress
            (SplitNTrimSpace env (Source rule))
            (ruleSubjectInternalAliases @ ruleSubjectExternalAliases @ map fst acls) = Inr sf"
      by (intro prefix_source) auto
    then obtain acls where
      acls: "GetNetworkACLIDsByNames env = Inr acls"
      and ok: "validateRuleSubjects env ''Source'' ruleDirectionEgress
            (SplitNTrimSpace env (Source rule))
            (ruleSubjectInternalAliases @ ruleSubjectExternalAliases @ map fst acls) = Inr sf"
      by auto
    from a acls have "validSubject env False ''Source'' ruleDirectionEgress
           (ruleSubjectInternalAliases @ ruleSubjectExternalAliases @ map fst acls) s
         = Inl (Errorf ''Named subjects not allowed in %q for %q rules''
                  [Str ''Source'', Str (direction_name ruleDirectionEgress)])"
      by (intro validSubject_named_rejected) auto
    with a have "\<exists>e'. validateRuleSubjects_loop
           (validSubject env False ''Source'' ruleDirectionEgress
              (ruleSubjectInternalAliases @ ruleSubjectExternalAliases @ map fst acls))
           (SplitNTrimSpace env (Source rule)) (False, False, False) = Inl e'"
      by (intro loop_error) auto
    with ok show False by (simp add: validateRuleSubjects_def)
  qed
next
  assume a: "named_subject env s \<and> GetNetworkACLIDsByNames env = Inr acls"
  then have "validSubject env True f d
           (ruleSubjectInternalAliases @ ruleSubjectExternalAliases @ map fst acls) s = Inr 0" for f d
    by (intro validSubject_named_accepted) auto
  then show "validateRuleSubjects env ''Source'' ruleDirectionIngress [s]
        (ruleSubjectInternalAliases @ ruleSubjectExternalAliases @ map fst acls)
        = Inr (True, False, False)"
    and "validateRuleSubjects env ''Destination'' ruleDirectionEgress [s]
        (ruleSubjectInternalAliases @ ruleSubjectExternalAliases @ map fst acls)
        = Inr (True, False, False)"
    by (simp_all add: validateRuleSubjects_def)
next
  assume a: "address_set_subject env s \<and> GetNetworkACLIDsByNames env = Inr acls"
  then have "validSubject env allow f d
           (ruleSubjectInternalAliases @ ruleSubjectExternalAliases @ map fst acls) s = Inr 0" for allow f d
    by (intro validSubject_address_set) auto
  then show "validateRuleSubjects env fieldName direction [s]
        (ruleSubjectInternalAliases @ ruleSubjectExternalAliases @ map fst acls)
        = Inr (True, False, False)"
    by (simp add: validateRuleSubjects_def Let_def)
qed


theorem named_subjects_only_in_origin_field_witness:
  "named_subject example_acl_env ''web''
 \<and> validateRule example_acl_env ruleDirectionIngress (example_rule\<lparr>Destination := ''10.0.0.1,web''\<rparr>)
      \<noteq> None
 \<and> named_subject example_acl_env ''@peer1''
 \<and> validateRule example_acl_env ruleDirectionEgress (example_rule\<lparr>Source := ''@peer1''\<rparr>)
      \<noteq> None
 \<and> validateRuleSubjects example_acl_env ''Source'' ruleDirectionIngress [''web'']
        (ruleSubjectInternalAliases @ ruleSubjectExternalAliases @ map fst [(''web'', 1::int)])
      = Inr (True, False, False)
 \<and> address_set_subject example_acl_env ''$dmz''
 \<and> validateRuleSubjects example_acl_env ''Destination'' ruleDirectionIngress [''$dmz'']
        (ruleSubjectInternalAliases @ ruleSubjectExternalAliases @ map fst [(''web'', 1::int)])
      = Inr (True, False, False)"
proof -
  have web: "named_subject example_acl_env ''web''"
    by (simp add: named_subject_def address_subject_def isNetworkAddress_def
        isNetworkAddressCIDR_def isNetworkRange_def example_acl_env_def)
  have peer: "named_subject example_acl_env ''@peer1''"
    by (simp add: named_subject_def address_subject_def isNetworkAddress_def
        isNetworkAddressCIDR_def isNetworkRange_def example_acl_env_def HasPrefix_def)
  have dmz: "address_set_subject example_acl_env ''$dmz''"
    by (simp add: address_set_subject_def named_subject_def address_subject_def
        isNetworkAddress_def isNetworkAddressCIDR_def isNetworkRange_def example_acl_env_def
        HasPrefix_def Trim_def ruleSubjectInternalAliases_def ruleSubjectExternalAliases_def
        ruleSubjectInternal_def ruleSubjectExternal_def)
  have acls: "GetNetworkACLIDsByNames example_acl_env = Inr [(''web'', 1)]"
    by (simp add: example_acl_env_def)
  have d: "Destination (example_rule\<lparr>Destination := ''10.0.0.1,web''\<rparr>) \<noteq> []
         \<and> ''web'' \<in> set (SplitNTrimSpace example_acl_env
                           (Destination (example_rule\<lparr>Destination := ''10.0.0.1,web''\<rparr>)))"
    by (simp add: example_acl_env_def)
  have s: "Source (example_rule\<lparr>Source := ''@peer1''\<rparr>) \<noteq> []
         \<and> ''@peer1'' \<in> set (SplitNTrimSpace example_acl_env
                           (Source (example_rule\<lparr>Source := ''@peer1''\<rparr>)))"
    by (simp add: example_acl_env_def)
  note t1 = named_subjects_only_in_origin_field
      [where env = example_acl_env and s = "''web''"
         and rule = "example_rule\<lparr>Destination := ''10.0.0.1,web''\<rparr>"
         and acls = "[(''web'', 1)]"]
  note t2 = named_subjects_only_in_origin_field
      [where env = example_acl_env and s = "''@peer1''"
         and rule = "example_rule\<lparr>Source := ''@peer1''\<rparr>"]
  note t3 = named_subjects_only_in_origin_field
      [where env = example_acl_env and s = "''$dmz''" and acls = "[(''web'', 1)]"
         and fieldName = "''Destination''" and direction = ruleDirectionIngress]
  have r1: "validateRule example_acl_env ruleDirectionIngress
      (example_rule\<lparr>Destination := ''10.0.0.1,web''\<rparr>) \<noteq> None"
    using web d by (intro t1 [THEN conjunct1, THEN mp]) simp
  have r2: "validateRule example_acl_env ruleDirectionEgress
      (example_rule\<lparr>Source := ''@peer1''\<rparr>) \<noteq> None"
    using peer s by (intro t2 [THEN conjunct2, THEN conjunct1, THEN mp]) simp
  have r3: "validateRuleSubjects example_acl_env ''Source'' ruleDirectionIngress [''web'']
        (ruleSubjectInternalAliases @ ruleSubjectExternalAliases @ map fst [(''web'', 1::int)])
      = Inr (True, False, False)"
    using web acls
    by (intro t1 [THEN conjunct2, THEN conjunct2, THEN conjunct1, THEN mp, THEN conjunct1]) simp
  have r4: "validateRuleSubjects example_acl_env ''Destination'' ruleDirectionIngress [''$dmz'']
        (ruleSubjectInternalAliases @ ruleSubjectExternalAliases @ map fst [(''web'', 1::int)])
      = Inr (True, False, False)"
    using dmz acls
    by (intro t3 [THEN conjunct2, THEN conjunct2, THEN conjunct2, THEN mp]) simp
  from web peer dmz r1 r2 r3 r4 show ?thesis by simp
qed

text \<open>
  C2 as stated does not hold for an address set: \<^verbatim>\<open>$dmz\<close> in the Destination of an
  ingress rule, and in the Source of an egress rule, passes \<^verbatim>\<open>validateRule\<close>.
\<close>

theorem address_set_in_other_field_counterexample:
  "validateRule example_acl_env ruleDirectionIngress (example_rule\<lparr>Destination := ''$dmz''\<rparr>) = None
 \<and> validateRule example_acl_env ruleDirectionEgress (example_rule\<lparr>Source := ''$dmz''\<rparr>) = None"
  by (simp add: validateRule_def validateRule_subjects_def validateRule_protocol_def
      validateRuleSubjects_def validSubject_def isNetworkAddress_def isNetworkAddressCIDR_def
      isNetworkRange_def ValidActions_def example_rule_def example_acl_env_def HasPrefix_def
      Trim_def ruleSubjectInternalAliases_def ruleSubjectExternalAliases_def
      ruleSubjectInternal_def ruleSubjectExternal_def)

lemma source_flag_IPv6:
  assumes ok: "validateRule_subjects env direction rule = Inr ((sn, s4, s6), df)"
    and src: "Source rule \<noteq> []" "s \<in> set (SplitNTrimSpace env (Source rule))" "IPv6_subject env s"
  shows "s6"
proof -
  from prefix_source [OF ok src(1)] obtain acls where
    "GetNetworkACLIDsByNames env = Inr acls" and
    run: "validateRuleSubjects env ''Source'' direction (SplitNTrimSpace env (Source rule))
            (ruleSubjectInternalAliases @ ruleSubjectExternalAliases @ map fst acls)
          = Inr (sn, s4, s6)"
    by auto
  have "validSubject env allow f d names s = Inr 6" for allow f d names
    using src(3) by (intro validSubject_address) (simp add: IPv6_subject_def)
  with src(2) have "\<exists>x \<in> set (SplitNTrimSpace env (Source rule)).
      validSubject env allow f d names x = Inr 6" for allow f d names
    by blast
  with run show ?thesis
    unfolding validateRuleSubjects_def Let_def
    by (auto dest!: loop_IPv6)
qed

text \<open>
  C6, as amended.  For every rule with Protocol tcp or udp and a non-empty ICMPType,
  \<^verbatim>\<open>validateRule\<close> returns an error, and when the rule passes the checks that come
  first (Action, State, the ACL lookup, Source, Destination and their IP families) the
  error is "ICMP type cannot be used with non-ICMP protocol".  For every rule with
  Protocol icmp4 whose Source contains an IPv6 subject, \<^verbatim>\<open>validateRule\<close> returns an
  error, and when the rule passes the checks that come first and has no SourcePort and
  no DestinationPort the error is "Cannot use IPv6 source addresses with %q protocol"
  with the protocol as its argument.
\<close>

theorem validateRule_protocol_errors:
  "(Protocol rule \<in> {''tcp'', ''udp''} \<and> ICMPType rule \<noteq> [] \<longrightarrow>
      validateRule env direction rule \<noteq> None
    \<and> (validateRule_subjects env direction rule = Inr flags \<longrightarrow>
         validateRule env direction rule
           = Some (Errorf ''ICMP type cannot be used with non-ICMP protocol'' [])))
 \<and> (Protocol rule = ''icmp4'' \<and> Source rule \<noteq> []
      \<and> s \<in> set (SplitNTrimSpace env (Source rule)) \<and> IPv6_subject env s \<longrightarrow>
      validateRule env direction rule \<noteq> None
    \<and> (validateRule_subjects env direction rule = Inr flags
         \<and> SourcePort rule = [] \<and> DestinationPort rule = [] \<longrightarrow>
         validateRule env direction rule
           = Some (Errorf ''Cannot use IPv6 source addresses with %q protocol'' [Str ''icmp4''])))"
proof (intro conjI impI)
  assume a: "Protocol rule \<in> {''tcp'', ''udp''} \<and> ICMPType rule \<noteq> []"
  then have p: "validateRule_protocol env rule a4 a6 b4 b6
                  = Some (Errorf ''ICMP type cannot be used with non-ICMP protocol'' [])" for a4 a6 b4 b6
    by (auto simp: validateRule_protocol_def)
  show "validateRule env direction rule \<noteq> None"
    by (cases "validateRule_subjects env direction rule") (auto simp: validateRule_def p)
  assume "validateRule_subjects env direction rule = Inr flags"
  then show "validateRule env direction rule
           = Some (Errorf ''ICMP type cannot be used with non-ICMP protocol'' [])"
    by (auto simp: validateRule_def p split: prod.splits)
next
  assume a: "Protocol rule = ''icmp4'' \<and> Source rule \<noteq> []
      \<and> s \<in> set (SplitNTrimSpace env (Source rule)) \<and> IPv6_subject env s"
  have flag: "s6" if "validateRule_subjects env direction rule = Inr ((sn, s4, s6), df)"
    for sn s4 s6 df
    using that a by (intro source_flag_IPv6 [of env direction rule sn s4 s6 df s]) auto
  have p: "validateRule_protocol env rule a4 True b4 b6 \<noteq> None" for a4 b4 b6
    using a by (auto simp: validateRule_protocol_def)
  show "validateRule env direction rule \<noteq> None"
  proof (cases "validateRule_subjects env direction rule")
    case (Inl e)
    then show ?thesis by (simp add: validateRule_def)
  next
    case (Inr fl)
    obtain sn s4 s6 dn d4 d6 where fl: "fl = ((sn, s4, s6), (dn, d4, d6))"
      by (metis prod.exhaust)
    with Inr flag have "s6" by blast
    with Inr fl p show ?thesis by (simp add: validateRule_def)
  qed
  assume b: "validateRule_subjects env direction rule = Inr flags
         \<and> SourcePort rule = [] \<and> DestinationPort rule = []"
  obtain sn s4 s6 dn d4 d6 where fl: "flags = ((sn, s4, s6), (dn, d4, d6))"
    by (metis prod.exhaust)
  with b flag have "s6" by blast
  moreover have "validateRule_protocol env rule a4 True b4 b6
       = Some (Errorf ''Cannot use IPv6 source addresses with %q protocol'' [Str ''icmp4''])" for a4 b4 b6
    using a b by (simp add: validateRule_protocol_def)
  ultimately show "validateRule env direction rule
           = Some (Errorf ''Cannot use IPv6 source addresses with %q protocol'' [Str ''icmp4''])"
    using b fl by (simp add: validateRule_def)
qed

theorem validateRule_protocol_errors_witness:
  "validateRule example_acl_env ruleDirectionIngress
       (example_rule\<lparr>Protocol := ''tcp'', ICMPType := ''8''\<rparr>)
     = Some (Errorf ''ICMP type cannot be used with non-ICMP protocol'' [])
 \<and> IPv6_subject example_acl_env ''fe80::1''
 \<and> validateRule example_acl_env ruleDirectionIngress
       (example_rule\<lparr>Protocol := ''icmp4'', Source := ''fe80::1''\<rparr>)
     = Some (Errorf ''Cannot use IPv6 source addresses with %q protocol'' [Str ''icmp4''])"
proof -
  have f1: "validateRule_subjects example_acl_env ruleDirectionIngress
       (example_rule\<lparr>Protocol := ''tcp'', ICMPType := ''8''\<rparr>)
     = Inr ((False, False, False), (False, False, False))"
    by (simp add: validateRule_subjects_def ValidActions_def example_rule_def example_acl_env_def)
  have f2: "validateRule_subjects example_acl_env ruleDirectionIngress
       (example_rule\<lparr>Protocol := ''icmp4'', Source := ''fe80::1''\<rparr>)
     = Inr ((False, False, True), (False, False, False))"
    by (simp add: validateRule_subjects_def validateRuleSubjects_def validSubject_def
        isNetworkAddress_def ipVersion_of_def ValidActions_def example_rule_def example_acl_env_def)
  have v6: "IPv6_subject example_acl_env ''fe80::1''"
    by (simp add: IPv6_subject_def address_subject_def isNetworkAddress_def ipVersion_of_def
        example_acl_env_def)
  have p1: "Protocol (example_rule\<lparr>Protocol := ''tcp'', ICMPType := ''8''\<rparr>) \<in> {''tcp'', ''udp''}
          \<and> ICMPType (example_rule\<lparr>Protocol := ''tcp'', ICMPType := ''8''\<rparr>) \<noteq> []"
    by simp
  have p2: "Protocol (example_rule\<lparr>Protocol := ''icmp4'', Source := ''fe80::1''\<rparr>) = ''icmp4''
          \<and> Source (example_rule\<lparr>Protocol := ''icmp4'', Source := ''fe80::1''\<rparr>) \<noteq> []
          \<and> ''fe80::1'' \<in> set (SplitNTrimSpace example_acl_env
                (Source (example_rule\<lparr>Protocol := ''icmp4'', Source := ''fe80::1''\<rparr>)))
          \<and> SourcePort (example_rule\<lparr>Protocol := ''icmp4'', Source := ''fe80::1''\<rparr>) = []
          \<and> DestinationPort (example_rule\<lparr>Protocol := ''icmp4'', Source := ''fe80::1''\<rparr>) = []"
    by (simp add: example_acl_env_def example_rule_def)
  note t1 = validateRule_protocol_errors
      [where env = example_acl_env and direction = ruleDirectionIngress
         and rule = "example_rule\<lparr>Protocol := ''tcp'', ICMPType := ''8''\<rparr>"
         and flags = "((False, False, False), (False, False, False))"]
  note t2 = validateRule_protocol_errors
      [where env = example_acl_env and direction = ruleDirectionIngress
         and rule = "example_rule\<lparr>Protocol := ''icmp4'', Source := ''fe80::1''\<rparr>"
         and flags = "((False, False, True), (False, False, False))" and s = "''fe80::1''"]
  have r1: "validateRule example_acl_env ruleDirectionIngress
       (example_rule\<lparr>Protocol := ''tcp'', ICMPType := ''8''\<rparr>)
     = Some (Errorf ''ICMP type cannot be used with non-ICMP protocol'' [])"
    using t1 [THEN conjunct1, THEN mp, OF p1, THEN conjunct2, THEN mp, OF f1] .
  have r2: "validateRule example_acl_env ruleDirectionIngress
       (example_rule\<lparr>Protocol := ''icmp4'', Source := ''fe80::1''\<rparr>)
     = Some (Errorf ''Cannot use IPv6 source addresses with %q protocol'' [Str ''icmp4''])"
    using p2 f2 v6
    by (intro t2 [THEN conjunct2, THEN mp, THEN conjunct2, THEN mp]) simp_all
  from r1 r2 v6 show ?thesis by simp
qed

text \<open>
  C6 as stated does not hold for a rule that fails an earlier check: a tcp rule with an
  ICMPType and no Action gets the Action error, and the rule
  \<^verbatim>\<open>{Action: allow, Protocol: icmp4, Source: fe80::1}\<close>, which has no State, gets the State
  error.
\<close>

theorem validateRule_earlier_check_counterexample:
  "validateRule example_acl_env ruleDirectionIngress
       (example_rule\<lparr>Action := [], Protocol := ''tcp'', ICMPType := ''8''\<rparr>)
     = Some (Errorf ''Action must be one of: %s'' [Str ''allow, allow-stateless, drop, reject''])
 \<and> validateRule example_acl_env ruleDirectionIngress
       (example_rule\<lparr>State := [], Protocol := ''icmp4'', Source := ''fe80::1''\<rparr>)
     = Some (Errorf ''State must be one of: %s'' [Str ''enabled, disabled, logged''])"
  by (simp add: validateRule_def validateRule_subjects_def ValidActions_def example_rule_def)


section \<open>Proofs: the dispatcher on an evacuated member\<close>

lemma handlers_evacuated:
  assumes "ServerClustered s" "LocalNodeIsEvacuated s"
  shows "createFromImage s = Forbidden (Errorf ''Cluster member is evacuated'' [])"
    and "createFromNone s = Forbidden (Errorf ''Cluster member is evacuated'' [])"
    and "createFromCopy s = Forbidden (Errorf ''Cluster member is evacuated'' [])"
  using assms
  by (simp_all add: createFromImage_def createFromNone_def createFromCopy_def)

lemma migration_evacuated:
  assumes "ServerClustered s" "LocalNodeIsEvacuated s" "CtxProtocol r \<noteq> ''cluster''"
  shows "createFromMigration s (Some r) = Forbidden (Errorf ''Cluster member is evacuated'' [])"
  using assms by (simp add: createFromMigration_def)

lemma placement_answer:
  "instancesPost_placement s env r tx = Inl resp \<Longrightarrow> dispatcher_answer resp"
  by (auto simp: instancesPost_placement_def dispatcher_answer_def Let_def
      split: if_splits option.splits sum.splits)

lemma forward_answer:
  "instancesPost_forward s env member = Some resp \<Longrightarrow> dispatcher_answer resp"
  by (auto simp: instancesPost_forward_def dispatcher_answer_def
      split: if_splits option.splits)

lemma refresh_answer:
  assumes "ServerClustered s" "LocalNodeIsEvacuated s" "CtxProtocol r \<noteq> ''cluster''"
    and "instancesPost_refresh s env r req = Some resp"
  shows "dispatcher_answer resp"
  using assms(4) migration_evacuated [OF assms(1,2,3)]
  by (auto simp: instancesPost_refresh_def dispatcher_answer_def
      split: if_splits option.splits remote_lookup.splits)

lemma refresh_not_migration:
  "req_Source_Type req \<noteq> ''migration'' \<Longrightarrow> instancesPost_refresh s env r req = None"
  by (simp add: instancesPost_refresh_def)

lemma switch_answer:
  assumes "ServerClustered s" "LocalNodeIsEvacuated s"
    and "CtxProtocol r \<noteq> ''cluster'' \<or> req_Source_Type req \<noteq> ''migration''"
  shows "dispatcher_answer (instancesPost_switch s r req)"
  using assms(3) handlers_evacuated [OF assms(1,2)] migration_evacuated [OF assms(1,2), of r]
  by (auto simp: instancesPost_switch_def dispatcher_answer_def)

lemma switch_forbidden:
  assumes "ServerClustered s" "LocalNodeIsEvacuated s"
    and "CtxProtocol r \<noteq> ''cluster'' \<or> req_Source_Type req \<noteq> ''migration''"
    and "req_Source_Type req \<in> {''image'', ''none'', ''migration'', ''copy''}"
  shows "instancesPost_switch s r req = Forbidden (Errorf ''Cluster member is evacuated'' [])"
  using assms(3,4) handlers_evacuated [OF assms(1,2)] migration_evacuated [OF assms(1,2), of r]
  by (auto simp: instancesPost_switch_def)

lemma instancesPost_no_local_create:
  assumes cl: "ServerClustered s" and ev: "LocalNodeIsEvacuated s"
    and json: "ContentType r \<noteq> ''application/octet-stream''"
    and proto: "CtxProtocol r \<noteq> ''cluster''
                \<or> (case Body r of Inl e \<Rightarrow> True | Inr req \<Rightarrow> req_Source_Type req \<noteq> ''migration'')"
  shows "dispatcher_answer (instancesPost s env r)"
proof (cases "Body r")
  case (Inl e)
  with json show ?thesis by (simp add: instancesPost_def dispatcher_answer_def)
next
  case (Inr req)
  with proto have p: "CtxProtocol r \<noteq> ''cluster'' \<or> req_Source_Type req \<noteq> ''migration''"
    by simp
  have refresh: "dispatcher_answer resp" if "instancesPost_refresh s env r req = Some resp" for resp
  proof (cases "CtxProtocol r \<noteq> ''cluster''")
    case True
    with cl ev that show ?thesis by (intro refresh_answer [of s r env req resp]) auto
  next
    case False
    with p have "req_Source_Type req \<noteq> ''migration''" by simp
    with that show ?thesis by (simp add: refresh_not_migration)
  qed
  have sw: "dispatcher_answer (instancesPost_switch s r req)"
    using cl ev p by (rule switch_answer)
  have err: "dispatcher_answer (BadRequest e)" "dispatcher_answer (SmartError e)" for e
    by (simp_all add: dispatcher_answer_def)
  show ?thesis
    using json Inr cl refresh sw err placement_answer [of s env r] forward_answer [of s env]
    by (simp add: instancesPost_def split: option.splits sum.splits)
qed


text \<open>
  C1, as amended.  On a clustered server whose local member is evacuated, a create
  request that is not raw octet-stream, and that is not a migration arriving over the
  cluster protocol, is never handled by a create handler on this member: the dispatcher
  answers with the error of one of its own checks, forwards the request to another
  member, or answers Forbidden "Cluster member is evacuated"; and it answers Forbidden
  whenever the request passes the dispatcher's checks with a known source type and is
  not forwarded.
\<close>

theorem instancesPost_evacuated:
  assumes cl: "ServerClustered s" and ev: "LocalNodeIsEvacuated s"
    and json: "ContentType r \<noteq> ''application/octet-stream''"
    and proto: "CtxProtocol r \<noteq> ''cluster''
                \<or> (case Body r of Inl e \<Rightarrow> True | Inr req \<Rightarrow> req_Source_Type req \<noteq> ''migration'')"
  shows "dispatcher_answer (instancesPost s env r)
       \<and> (Body r = Inr req
          \<and> (req_InstanceType req = [] \<or> instanceParseType env = None)
          \<and> instancesPost_refresh s env r req = None
          \<and> Transaction env = Inr tx \<and> ValidName env = None
          \<and> instancesPost_placement s env r tx = Inr member
          \<and> instancesPost_forward s env member = None
          \<and> req_Source_Type req \<in> {''image'', ''none'', ''migration'', ''copy''} \<longrightarrow>
          instancesPost s env r = Forbidden (Errorf ''Cluster member is evacuated'' []))"
proof (intro conjI impI)
  show "dispatcher_answer (instancesPost s env r)"
    using cl ev json proto by (rule instancesPost_no_local_create)
next
  assume a: "Body r = Inr req
          \<and> (req_InstanceType req = [] \<or> instanceParseType env = None)
          \<and> instancesPost_refresh s env r req = None
          \<and> Transaction env = Inr tx \<and> ValidName env = None
          \<and> instancesPost_placement s env r tx = Inr member
          \<and> instancesPost_forward s env member = None
          \<and> req_Source_Type req \<in> {''image'', ''none'', ''migration'', ''copy''}"
  with proto have p: "CtxProtocol r \<noteq> ''cluster'' \<or> req_Source_Type req \<noteq> ''migration''"
    by auto
  from a have known: "req_Source_Type req \<in> {''image'', ''none'', ''migration'', ''copy''}"
    by simp
  have "instancesPost s env r = instancesPost_switch s r req"
    using a json cl by (auto simp: instancesPost_def)
  also have "\<dots> = Forbidden (Errorf ''Cluster member is evacuated'' [])"
    using cl ev p known by (rule switch_forbidden)
  finally show "instancesPost s env r = Forbidden (Errorf ''Cluster member is evacuated'' [])" .
qed

theorem instancesPost_evacuated_witness:
  "ServerClustered evacuated_member \<and> LocalNodeIsEvacuated evacuated_member
 \<and> ContentType image_request \<noteq> ''application/octet-stream''
 \<and> CtxProtocol image_request \<noteq> ''cluster''
 \<and> instancesPost evacuated_member
       (placed_on (Some \<lparr>node_Name = ''m1'', node_Address = ''10.0.0.1:8443''\<rparr>)) image_request
     = Forbidden (Errorf ''Cluster member is evacuated'' [])"
proof -
  let ?env = "placed_on (Some \<lparr>node_Name = ''m1'', node_Address = ''10.0.0.1:8443''\<rparr>)"
  let ?req = "\<lparr>req_Name = ''c1'', req_InstanceType = [], req_Source_Type = ''image'',
                req_Source_Refresh = False\<rparr>"
  let ?tx = "\<lparr>targetMemberInfo = Some \<lparr>node_Name = ''m1'', node_Address = ''10.0.0.1:8443''\<rparr>,
               targetGroupName = [], candidateMembers = []\<rparr>"
  have cl: "ServerClustered evacuated_member" and ev: "LocalNodeIsEvacuated evacuated_member"
    by (simp_all add: evacuated_member_def)
  have json: "ContentType image_request \<noteq> ''application/octet-stream''"
    by (simp add: image_request_def)
  have tls: "CtxProtocol image_request \<noteq> ''cluster''"
    by (simp add: image_request_def)
  then have proto: "CtxProtocol image_request \<noteq> ''cluster''
      \<or> (case Body image_request of Inl e \<Rightarrow> True | Inr req \<Rightarrow> req_Source_Type req \<noteq> ''migration'')"
    by simp
  have route: "Body image_request = Inr ?req
          \<and> (req_InstanceType ?req = [] \<or> instanceParseType ?env = None)
          \<and> instancesPost_refresh evacuated_member ?env image_request ?req = None
          \<and> Transaction ?env = Inr ?tx \<and> ValidName ?env = None
          \<and> instancesPost_placement evacuated_member ?env image_request ?tx
               = Inr (Some \<lparr>node_Name = ''m1'', node_Address = ''10.0.0.1:8443''\<rparr>)
          \<and> instancesPost_forward evacuated_member ?env
               (Some \<lparr>node_Name = ''m1'', node_Address = ''10.0.0.1:8443''\<rparr>) = None
          \<and> req_Source_Type ?req \<in> {''image'', ''none'', ''migration'', ''copy''}"
    by (simp add: image_request_def placed_on_def evacuated_member_def instancesPost_refresh_def
        instancesPost_placement_def instancesPost_forward_def)
  have "instancesPost evacuated_member ?env image_request
          = Forbidden (Errorf ''Cluster member is evacuated'' [])"
    using instancesPost_evacuated [OF cl ev json proto, THEN conjunct2, THEN mp, OF route] .
  with cl ev json tls show ?thesis by simp
qed

text \<open>
  C1 as stated does not hold: the request for an instance that the database places on
  member \<^verbatim>\<open>m2\<close> is forwarded there, not rejected; and a raw octet-stream request goes
  to \<^verbatim>\<open>createFromBackup\<close>, which has no evacuation check.
\<close>

theorem instancesPost_evacuated_counterexample:
  "instancesPost evacuated_member
       (placed_on (Some \<lparr>node_Name = ''m2'', node_Address = ''10.0.0.2:8443''\<rparr>)) image_request
     = ForwardedOperationResponse
 \<and> instancesPost evacuated_member (placed_on None)
       (image_request\<lparr>ContentType := ''application/octet-stream''\<rparr>)
     = Handled ''createFromBackup''"
  by (simp add: instancesPost_def createFromBackup_def image_request_def placed_on_def
      evacuated_member_def instancesPost_refresh_def instancesPost_placement_def
      instancesPost_forward_def)

end
